theory Spec2Isabelle
  imports Main "HOL-Library.Multiset" "HOL-Library.Product_Lexorder"
    "HOL-Library.Char_ord" "HOL-Library.List_Lexorder"
begin

section \<open>Data model of \<^verbatim>\<open>caregiver_optimizer.py\<close>\<close>

text \<open>
  \<^verbatim>\<open>Client\<close> defines no \<^verbatim>\<open>__eq__\<close>, so Python's \<^verbatim>\<open>client in self.clients\<close> and
  \<^verbatim>\<open>self.clients.remove(client)\<close> compare object identity. A client object is never
  mutated after its construction, so it is modelled by its field values together with a
  tag \<open>ident\<close> that names the object: two records with the same tag stand for the same
  object, and HOL equality of records is then Python's identity. Objects built from the
  input records are tagged by their index, the parts made by the splitter by the tag of
  the client they come from and their part number.
\<close>

datatype obj_id = Obj nat | Part obj_id nat

record client =
  ident :: obj_id
  name :: string
  hours :: int
  days :: int
  needs_driver :: bool
  zip_code :: string

text \<open>
  \<^verbatim>\<open>CaregiverPosition\<close>. The optional fields are \<^verbatim>\<open>None\<close> until they are set.
  A position object is held by one list at a time, so positions are passed as values and
  every method returns the updated position.
\<close>

record position =
  position_id :: int
  clients :: "client list"
  total_hours :: int
  working_days :: int
  requires_driver :: "bool option"
  zip_codes :: "string list"
  position_type :: "string option"
  driver_type :: "string option"

definition new_position :: "int \<Rightarrow> position" where
  "new_position pid =
     \<lparr>position_id = pid, clients = [], total_hours = 0, working_days = 0,
      requires_driver = None, zip_codes = [], position_type = None, driver_type = None\<rparr>"

definition can_accept_client :: "position \<Rightarrow> client \<Rightarrow> bool" where
  "can_accept_client self c =
     (if requires_driver self \<noteq> None \<and> Some (needs_driver c) \<noteq> requires_driver self then False
      else if total_hours self + hours c > 45 then False
      else if working_days self + days c > 5 then False
      else True)"

definition assign_client :: "position \<Rightarrow> client \<Rightarrow> position" where
  "assign_client self c =
     (let self1 = (if clients self = [] then self\<lparr>requires_driver := Some (needs_driver c)\<rparr>
                   else self)
      in self1\<lparr>clients := clients self1 @ [c],
               total_hours := total_hours self1 + hours c,
               working_days := working_days self1 + days c,
               zip_codes := (if zip_code c \<notin> set (zip_codes self1)
                             then zip_codes self1 @ [zip_code c] else zip_codes self1)\<rparr>)"

text \<open>
  \<^verbatim>\<open>any(c.needs_driver for c in clients)\<close>.
\<close>

definition any_needs_driver :: "client list \<Rightarrow> bool" where
  "any_needs_driver cs = list_ex needs_driver cs"

text \<open>
  \<^verbatim>\<open>list(set(c.zip_code for c in self.clients if c.zip_code))\<close>: the distinct non-empty
  zip codes of the clients. Python lists them in the set's hash order, which the program
  does not fix; the model lists them in order of first occurrence. The program reads
  \<^verbatim>\<open>zip_codes\<close> only through membership tests and through \<^verbatim>\<open>sorted(list(set(...)))\<close>, so
  nothing below depends on that order, and the theorems speak of \<open>set (zip_codes p)\<close>.
\<close>

definition recalculated_zip_codes :: "client list \<Rightarrow> string list" where
  "recalculated_zip_codes cs = remdups (filter (\<lambda>z. z \<noteq> []) (map zip_code cs))"

text \<open>
  \<^verbatim>\<open>unassign_client\<close> returns the updated position and whether it printed its
  warning (the client was not found).
\<close>

definition unassign_client :: "position \<Rightarrow> client \<Rightarrow> position \<times> bool" where
  "unassign_client self c =
     (if c \<in> set (clients self) then
        (let cs = remove1 c (clients self)
         in (self\<lparr>clients := cs,
                  total_hours := total_hours self - hours c,
                  working_days := working_days self - days c,
                  zip_codes := recalculated_zip_codes cs,
                  requires_driver := (if cs = [] then None else Some (any_needs_driver cs))\<rparr>,
             False))
      else (self, True))"

section \<open>Search for an assignment\<close>

text \<open>
  \<^verbatim>\<open>sorted(clients, key=difficulty_score)\<close>: a stable sort on the key
  \<^verbatim>\<open>(driver_priority, -hours, -days)\<close>, tuples compared lexicographically.
\<close>

definition difficulty_score :: "client \<Rightarrow> int \<times> int \<times> int" where
  "difficulty_score c = ((if needs_driver c then 0 else 1), - hours c, - days c)"

definition sort_by_assignment_difficulty :: "client list \<Rightarrow> client list" where
  "sort_by_assignment_difficulty cs = sort_key difficulty_score cs"

text \<open>
  \<^verbatim>\<open>backtrack_assignment\<close> mutates the positions in place and returns either the list
  \<^verbatim>\<open>positions\<close> itself or \<^verbatim>\<open>None\<close>. The model returns whether a result was found
  together with the state of the positions when the call returns: on success that state
  is the result, on failure it is what the caller's loop goes on with.
  \<open>try_positions\<close> is the loop \<^verbatim>\<open>for position in positions\<close> over the positions not yet
  tried, given by their indices (the list is never resized).
\<close>

function backtrack_assignment :: "client list \<Rightarrow> position list \<Rightarrow> nat \<Rightarrow> bool \<times> position list"
  and try_positions ::
    "client list \<Rightarrow> position list \<Rightarrow> nat \<Rightarrow> client \<Rightarrow> nat list \<Rightarrow> bool \<times> position list"
where
  "backtrack_assignment cs positions client_index =
     (if client_index \<ge> length cs then (True, positions)
      else try_positions cs positions client_index (cs ! client_index) [0..<length positions])"
| "try_positions cs positions client_index current_client [] = (False, positions)"
| "try_positions cs positions client_index current_client (j # js) =
     (if can_accept_client (positions ! j) current_client then
        (case backtrack_assignment cs
                (positions[j := assign_client (positions ! j) current_client])
                (client_index + 1) of
           (True, result) \<Rightarrow> (True, result)
         | (False, positions') \<Rightarrow>
             try_positions cs
               (positions'[j := fst (unassign_client (positions' ! j) current_client)])
               client_index current_client js)
      else try_positions cs positions client_index current_client js)"
  by pat_completeness auto
termination
  by (relation "measures
        [\<lambda>x. case x of Inl (cs, ps, i) \<Rightarrow> length cs - i
                      | Inr (cs, ps, i, c, js) \<Rightarrow> length cs - i,
         \<lambda>x. case x of Inl (cs, ps, i) \<Rightarrow> if i < length cs then length ps + 2 else 0
                      | Inr (cs, ps, i, c, js) \<Rightarrow> length js + 1]") auto

declare backtrack_assignment.simps [simp del]

section \<open>Validation and classification\<close>

fun all_constraints_satisfied :: "position list \<Rightarrow> bool" where
  "all_constraints_satisfied [] = True"
| "all_constraints_satisfied (p # ps) =
     (if clients p = [] then all_constraints_satisfied ps
      else if \<not> (16 \<le> total_hours p \<and> total_hours p \<le> 45) then False
      else if working_days p > 5 then False
      else if requires_driver p \<noteq> Some (any_needs_driver (clients p)) then False
      else all_constraints_satisfied ps)"

text \<open>
  The body of the loop that re-numbers and labels a populated position.
\<close>

definition finalize_position :: "int \<Rightarrow> position \<Rightarrow> position" where
  "finalize_position new_id p =
     (let p1 = p\<lparr>position_id := new_id,
                 position_type := Some (if total_hours p \<le> 24 then ''Part-time''
                                        else ''Full-time'')\<rparr>;
          p2 = (if clients p1 \<noteq> [] then
                  (let current_req_driver = any_needs_driver (clients p1)
                   in if requires_driver p1 = None
                         \<or> requires_driver p1 \<noteq> Some current_req_driver
                      then p1\<lparr>requires_driver := Some current_req_driver\<rparr> else p1)
                else p1\<lparr>requires_driver := Some False\<rparr>)
      in p2\<lparr>driver_type := Some (if requires_driver p2 = Some True then ''Driver''
                                  else ''Non-driver'')\<rparr>)"

text \<open>
  \<^verbatim>\<open>validate_and_return_solution\<close>: \<open>None\<close> is Python's \<^verbatim>\<open>None\<close> (no solution),
  \<open>Some []\<close> the empty list.
\<close>

definition validate_and_return_solution :: "position list \<Rightarrow> int \<Rightarrow> position list option" where
  "validate_and_return_solution positions_to_validate new_id_start =
     (let populated_positions = filter (\<lambda>pos. clients pos \<noteq> []) positions_to_validate
      in if populated_positions = [] \<and> list_ex (\<lambda>pos. clients pos \<noteq> []) positions_to_validate
         then None
         else if populated_positions = [] then Some []
         else if \<not> all_constraints_satisfied populated_positions then None
         else Some (map (\<lambda>(i, pos). finalize_position (new_id_start + int i) pos)
                      (enumerate 0 populated_positions)))"

section \<open>Search over the number of positions\<close>

definition assigned_client_names :: "position list \<Rightarrow> string set" where
  "assigned_client_names ps = set (concat (map (\<lambda>pos. map name (clients pos)) ps))"

definition attempt_assignment :: "client list \<Rightarrow> int \<Rightarrow> int \<Rightarrow> position list option" where
  "attempt_assignment cs target_caregivers position_id_start =
     (if cs = [] then Some []
      else if target_caregivers = 0 then None
      else
        (let positions = map (\<lambda>i. new_position (position_id_start + i)) [0..target_caregivers - 1];
             sorted_clients = sort_by_assignment_difficulty cs
         in case backtrack_assignment sorted_clients positions 0 of
              (False, _) \<Rightarrow> None
            | (True, raw_assigned_positions) \<Rightarrow>
                if raw_assigned_positions = [] then None
                else
                  (case validate_and_return_solution raw_assigned_positions position_id_start of
                     None \<Rightarrow> None
                   | Some validated_solution \<Rightarrow>
                       if validated_solution = [] then None
                       else if assigned_client_names validated_solution = set (map name cs)
                       then Some validated_solution
                       else None)))"

text \<open>
  \<^verbatim>\<open>math.ceil(a / b)\<close> for integers \<open>a\<close> and \<open>b > 0\<close>. Python divides as floats
  and rounds up; the model rounds the exact quotient up, which is the same number as long
  as \<open>a\<close> is far below \<open>2^52\<close>, as any number of weekly hours is.
\<close>

definition py_ceil_div :: "int \<Rightarrow> int \<Rightarrow> int" where
  "py_ceil_div a b = - ((- a) div b)"

text \<open>
  The loop \<^verbatim>\<open>for target_caregivers in range(theoretical_min, practical_max + 1)\<close>
  of \<^verbatim>\<open>constraint_satisfaction_algorithm\<close>, over the targets still to try.
\<close>

fun search_targets :: "client list \<Rightarrow> int list \<Rightarrow> int \<Rightarrow> position list" where
  "search_targets cs [] start = []"
| "search_targets cs (target_caregivers # rest) start =
     (case attempt_assignment cs target_caregivers start of
        None \<Rightarrow> search_targets cs rest start
      | Some solution_positions \<Rightarrow>
          if solution_positions \<noteq> []
             \<and> assigned_client_names solution_positions = set (map name cs)
          then solution_positions
          else search_targets cs rest start)"

definition constraint_satisfaction_algorithm :: "client list \<Rightarrow> int \<Rightarrow> position list" where
  "constraint_satisfaction_algorithm clients0 initial_position_id_start =
     (if clients0 = [] then []
      else
        (let total_hours0 = sum_list (map hours clients0);
             cs = (if total_hours0 = 0 then filter (\<lambda>c. hours c > 0) clients0 else clients0)
         in if total_hours0 = 0 \<and> cs = [] then []
            else
              (let total = (if total_hours0 = 0 then sum_list (map hours cs) else total_hours0);
                   theoretical_min0 = (if total > 0 then py_ceil_div total 45 else 0);
                   theoretical_min = (if cs \<noteq> [] then max 1 theoretical_min0 else 0);
                   practical_max = int (length cs)
               in search_targets cs [theoretical_min..practical_max]
                    initial_position_id_start)))"

section \<open>Splitting oversized clients\<close>

text \<open>
  \<^verbatim>\<open>str(n)\<close> of an integer, as the f-strings print it.
\<close>

fun nat_digits :: "nat \<Rightarrow> string" where
  "nat_digits n =
     (if n < 10 then [''0123456789'' ! n]
      else nat_digits (n div 10) @ [''0123456789'' ! (n mod 10)])"

declare nat_digits.simps [simp del]

definition py_str_int :: "int \<Rightarrow> string" where
  "py_str_int i = (if i < 0 then CHR ''-'' # nat_digits (nat (- i)) else nat_digits (nat i))"

text \<open>
  The client object built in iteration \<open>i\<close> of \<^verbatim>\<open>for i in range(num_splits)\<close>.
\<close>

definition split_client_part :: "client \<Rightarrow> int \<Rightarrow> int \<Rightarrow> client" where
  "split_client_part c num_splits i =
     (let base_hours_per_part = hours c div num_splits;
          extra_hours = hours c mod num_splits;
          base_days_per_part = days c div num_splits;
          extra_days = days c mod num_splits;
          part_hours = base_hours_per_part + (if i < extra_hours then 1 else 0);
          part_days0 = base_days_per_part + (if i < extra_days then 1 else 0);
          part_days = (if part_hours > 0 \<and> days c > 0 \<and> part_days0 = 0 then 1 else part_days0)
      in \<lparr>ident = Part (ident c) (nat i),
          name = name c @ '' (Part '' @ py_str_int (i + 1) @ ''/'' @ py_str_int num_splits @ '')'',
          hours = part_hours, days = part_days,
          needs_driver = needs_driver c, zip_code = zip_code c\<rparr>)"

text \<open>
  The loop \<^verbatim>\<open>for client in clients\<close> of \<^verbatim>\<open>handle_mandatory_splits\<close>, with its three
  variables \<^verbatim>\<open>positions_from_splits\<close>, \<^verbatim>\<open>clients_not_needing_split\<close> and
  \<^verbatim>\<open>current_pos_id\<close>. Iteration \<open>i\<close> of the inner loop makes the position numbered
  \<open>current_pos_id + i\<close>.
\<close>

fun split_loop ::
  "client list \<Rightarrow> position list \<times> client list \<times> int \<Rightarrow> position list \<times> client list \<times> int"
where
  "split_loop [] st = st"
| "split_loop (c # rest) (positions_from_splits, clients_not_needing_split, current_pos_id) =
     (if hours c > 45 then
        (let num_splits = py_ceil_div (hours c) 45;
             made = map (\<lambda>i. assign_client (new_position (current_pos_id + i))
                                (split_client_part c num_splits i))
                      [0..num_splits - 1]
         in split_loop rest
              (positions_from_splits @ made, clients_not_needing_split,
               current_pos_id + num_splits))
      else split_loop rest
             (positions_from_splits, clients_not_needing_split @ [c], current_pos_id))"

definition handle_mandatory_splits :: "client list \<Rightarrow> int \<Rightarrow> position list \<times> client list" where
  "handle_mandatory_splits cs start_pos_id =
     (case split_loop cs ([], [], start_pos_id) of
        (positions_from_splits, clients_not_needing_split, _) \<Rightarrow>
          (positions_from_splits, clients_not_needing_split))"

section \<open>The orchestrator\<close>

definition post_optimization_merge :: "position list \<Rightarrow> position list" where
  "post_optimization_merge positions = positions"

text \<open>
  \<^verbatim>\<open>optimize_with_strategic_enhancements\<close> returns the positions and whether it printed
  the warning about mismatching total hours.
\<close>

definition optimize_with_strategic_enhancements :: "client list \<Rightarrow> position list \<times> bool" where
  "optimize_with_strategic_enhancements cs =
     (if cs = [] then ([], False)
      else
        (case handle_mandatory_splits cs 1 of
           (positions_from_splits0, remaining_clients_for_main_algo) \<Rightarrow>
             (let next_pos_id =
                    (case positions_from_splits0 of
                       [] \<Rightarrow> 1
                     | p # ps \<Rightarrow> fold max (map position_id ps) (position_id p) + 1);
                  positions_from_splits =
                    map (\<lambda>pos. pos\<lparr>position_type :=
                                      Some (if total_hours pos \<le> 24 then ''Part-time''
                                            else ''Full-time''),
                                    driver_type :=
                                      Some (if requires_driver pos = Some True then ''Driver''
                                            else ''Non-driver'')\<rparr>)
                      positions_from_splits0;
                  additional_positions =
                    (if remaining_clients_for_main_algo \<noteq> []
                     then constraint_satisfaction_algorithm remaining_clients_for_main_algo
                            next_pos_id
                     else []);
                  combined_solution_pre_merge = positions_from_splits @ additional_positions
              in if combined_solution_pre_merge = [] then ([], False)
                 else
                   (case validate_and_return_solution
                           (post_optimization_merge combined_solution_pre_merge) 1 of
                      None \<Rightarrow> ([], False)
                    | Some final_validated_solution \<Rightarrow>
                        (final_validated_solution,
                         sum_list (map total_hours final_validated_solution)
                           \<noteq> sum_list (map hours cs))))))"

section \<open>Reading the input records\<close>

text \<open>
  The values an input record can hold under a key: \<^verbatim>\<open>None\<close>, a boolean, an integer or
  a string (floats and containers are left out). A record is given by what it holds under
  the five keys the program reads, \<open>None\<close> for a missing key; the name, when there is one,
  is a string, as \<^verbatim>\<open>Client\<close> declares it.
\<close>

datatype pyval = PyNone | PyBool bool | PyInt int | PyStr string

datatype py_error = ValueError | TypeError

record client_data =
  d_name :: "string option"
  d_hours :: "pyval option"
  d_days :: "pyval option"
  d_needs_driver :: "pyval option"
  d_zip_code :: "pyval option"

text \<open>
  \<^verbatim>\<open>int(s)\<close> for a string: white space around, a sign, then decimal digits with single
  underscores between them (ASCII only).
\<close>

definition is_space :: "char \<Rightarrow> bool" where
  "is_space c = (c \<in> set [CHR '' '', CHR 0x09, CHR 0x0A, CHR 0x0B, CHR 0x0C, CHR 0x0D])"

definition is_digit :: "char \<Rightarrow> bool" where
  "is_digit c = (c \<in> set ''0123456789'')"

definition digit_value :: "char \<Rightarrow> int" where
  "digit_value c = int (of_char c) - 48"

fun digits_value :: "string \<Rightarrow> int \<Rightarrow> int option" where
  "digits_value [] acc = Some acc"
| "digits_value (c # cs) acc =
     (if c = CHR ''_'' then
        (case cs of [] \<Rightarrow> None
         | d # _ \<Rightarrow> if is_digit d then digits_value cs acc else None)
      else if is_digit c then digits_value cs (10 * acc + digit_value c)
      else None)"

definition unsigned_value :: "string \<Rightarrow> int option" where
  "unsigned_value s =
     (case s of [] \<Rightarrow> None | c # _ \<Rightarrow> if is_digit c then digits_value s 0 else None)"

definition int_of_string :: "string \<Rightarrow> int option" where
  "int_of_string s =
     (case rev (dropWhile is_space (rev (dropWhile is_space s))) of
        [] \<Rightarrow> None
      | c # cs \<Rightarrow>
          if c = CHR ''-'' then map_option uminus (unsigned_value cs)
          else if c = CHR ''+'' then unsigned_value cs
          else unsigned_value (c # cs))"

fun py_int :: "pyval \<Rightarrow> py_error + int" where
  "py_int PyNone = Inl TypeError"
| "py_int (PyBool b) = Inr (if b then 1 else 0)"
| "py_int (PyInt n) = Inr n"
| "py_int (PyStr s) = (case int_of_string s of None \<Rightarrow> Inl ValueError | Some n \<Rightarrow> Inr n)"

fun py_bool :: "pyval \<Rightarrow> bool" where
  "py_bool PyNone = False"
| "py_bool (PyBool b) = b"
| "py_bool (PyInt n) = (n \<noteq> 0)"
| "py_bool (PyStr s) = (s \<noteq> [])"

fun py_str :: "pyval \<Rightarrow> string" where
  "py_str PyNone = ''None''"
| "py_str (PyBool b) = (if b then ''True'' else ''False'')"
| "py_str (PyInt n) = py_str_int n"
| "py_str (PyStr s) = s"

text \<open>
  \<^verbatim>\<open>data.get(key, default)\<close>.
\<close>

definition get_default :: "'a option \<Rightarrow> 'a \<Rightarrow> 'a" where
  "get_default v d = (case v of None \<Rightarrow> d | Some x \<Rightarrow> x)"

text \<open>
  The constructor call of the \<^verbatim>\<open>try\<close> block for record number \<open>i\<close> (from 0): the
  arguments are evaluated from left to right, and the first exception ends the call.
\<close>

definition make_client :: "nat \<Rightarrow> client_data \<Rightarrow> py_error + client" where
  "make_client i data =
     (case py_int (get_default (d_hours data) (PyInt 0)) of
        Inl e \<Rightarrow> Inl e
      | Inr h \<Rightarrow>
          (case py_int (get_default (d_days data) (PyInt 0)) of
             Inl e \<Rightarrow> Inl e
           | Inr d \<Rightarrow>
               Inr \<lparr>ident = Obj i,
                    name = get_default (d_name data) (''Client_'' @ py_str_int (int i + 1)),
                    hours = h, days = d,
                    needs_driver = py_bool (get_default (d_needs_driver data) (PyBool False)),
                    zip_code = py_str (get_default (d_zip_code data) (PyStr ''00000''))\<rparr>))"

text \<open>
  The loop \<^verbatim>\<open>for i, data in enumerate(client_data)\<close>: a \<^verbatim>\<open>ValueError\<close> is caught and
  the record skipped with a warning; any other exception leaves the function. The result
  is the list of clients and the indices of the skipped records.
\<close>

fun read_clients ::
  "nat \<Rightarrow> client_data list \<Rightarrow> client list \<times> nat list \<Rightarrow> py_error + client list \<times> nat list"
where
  "read_clients i [] acc = Inr acc"
| "read_clients i (data # rest) (cs, skipped) =
     (case make_client i data of
        Inr c \<Rightarrow> read_clients (i + 1) rest (cs @ [c], skipped)
      | Inl ValueError \<Rightarrow> read_clients (i + 1) rest (cs, skipped @ [i])
      | Inl e \<Rightarrow> Inl e)"

record schedule_entry =
  caregiver_id :: string
  entry_type :: string
  weekly_hours :: int
  entry_working_days :: int
  entry_clients :: "string list"
  entry_zip_codes :: "string list"
  driver_required :: "bool option"

definition str_opt :: "string option \<Rightarrow> string" where
  "str_opt v = (case v of None \<Rightarrow> ''None'' | Some s \<Rightarrow> s)"

definition schedule_entry_of :: "position \<Rightarrow> schedule_entry" where
  "schedule_entry_of pos =
     \<lparr>caregiver_id = ''CG_'' @ py_str_int (position_id pos),
      entry_type = str_opt (position_type pos) @ '' '' @ str_opt (driver_type pos),
      weekly_hours = total_hours pos,
      entry_working_days = working_days pos,
      entry_clients = map name (clients pos),
      entry_zip_codes = sort (remdups (zip_codes pos)),
      driver_required = requires_driver pos\<rparr>"

text \<open>
  \<^verbatim>\<open>generate_optimal_schedule\<close>: \<open>Inl e\<close> when the exception \<open>e\<close> leaves the function,
  \<open>Inr\<close> of the schedule it returns otherwise.
\<close>

definition generate_optimal_schedule :: "client_data list \<Rightarrow> py_error + schedule_entry list" where
  "generate_optimal_schedule client_data_list =
     (case read_clients 0 client_data_list ([], []) of
        Inl e \<Rightarrow> Inl e
      | Inr (cs, skipped) \<Rightarrow>
          if cs = [] then Inr []
          else
            (let optimal_positions = fst (optimize_with_strategic_enhancements cs)
             in if optimal_positions = [] then Inr []
                else Inr (map schedule_entry_of optimal_positions)))"

section \<open>Example inputs\<close>

text \<open>
  A client object with the given tag and field values, for the concrete runs below.
\<close>

definition example_client :: "nat \<Rightarrow> string \<Rightarrow> int \<Rightarrow> int \<Rightarrow> bool \<Rightarrow> string \<Rightarrow> client" where
  "example_client i n h d dr z =
     \<lparr>ident = Obj i, name = n, hours = h, days = d, needs_driver = dr, zip_code = z\<rparr>"

section \<open>Position bookkeeping\<close>

text \<open>
  C9. Unassigning a client that is not in the position changes no field of the position
  (the clients, the totals, the driver flag, the zip codes, the identifier and the labels
  all stay as they were); the only effect is the warning.
\<close>

theorem unassign_absent_unchanged:
  "c \<notin> set (clients p) \<Longrightarrow> unassign_client p c = (p, True)"
  by (simp add: unassign_client_def)

theorem unassign_absent_unchanged_witness:
  "unassign_client
     (assign_client (new_position 1)
        \<lparr>ident = Obj 0, name = ''A'', hours = 20, days = 2, needs_driver = True,
         zip_code = ''90210''\<rparr>)
     \<lparr>ident = Obj 1, name = ''B'', hours = 10, days = 1, needs_driver = True,
      zip_code = ''90210''\<rparr>
   = (\<lparr>position_id = 1,
       clients = [\<lparr>ident = Obj 0, name = ''A'', hours = 20, days = 2, needs_driver = True,
                   zip_code = ''90210''\<rparr>],
       total_hours = 20, working_days = 2, requires_driver = Some True,
       zip_codes = [''90210''], position_type = None, driver_type = None\<rparr>, True)"
proof -
  let ?a = "\<lparr>ident = Obj 0, name = ''A'', hours = 20, days = 2, needs_driver = True,
             zip_code = ''90210''\<rparr>"
  let ?b = "\<lparr>ident = Obj 1, name = ''B'', hours = 10, days = 1, needs_driver = True,
             zip_code = ''90210''\<rparr>"
  have absent: "?b \<notin> set (clients (assign_client (new_position 1) ?a))"
    by (simp add: assign_client_def new_position_def)
  show ?thesis
    using unassign_absent_unchanged [OF absent]
    by (simp add: assign_client_def new_position_def)
qed

section \<open>The validator and classifier\<close>

lemma all_constraints_satisfied_member:
  "all_constraints_satisfied ps \<Longrightarrow> p \<in> set ps \<Longrightarrow> clients p \<noteq> [] \<Longrightarrow>
     16 \<le> total_hours p \<and> total_hours p \<le> 45 \<and> working_days p \<le> 5
     \<and> requires_driver p = Some (any_needs_driver (clients p))"
  by (induction ps) (auto split: if_splits)

lemma finalize_position_checked:
  assumes "clients p \<noteq> []" "requires_driver p = Some (any_needs_driver (clients p))"
  shows "finalize_position n p =
           p\<lparr>position_id := n,
             position_type := Some (if total_hours p \<le> 24 then ''Part-time'' else ''Full-time''),
             driver_type := Some (if any_needs_driver (clients p) then ''Driver'' else ''Non-driver'')\<rparr>"
  using assms by (simp add: finalize_position_def Let_def)

lemma validate_Some_nth:
  assumes "validate_and_return_solution ps s = Some res" "i < length res"
  shows "\<exists>p \<in> set ps. clients p \<noteq> [] \<and> all_constraints_satisfied [p]
            \<and> res ! i = finalize_position (s + int i) p"
proof -
  let ?pop = "filter (\<lambda>pos. clients pos \<noteq> []) ps"
  from assms have res: "res = map (\<lambda>(i, pos). finalize_position (s + int i) pos) (enumerate 0 ?pop)"
    and ok: "all_constraints_satisfied ?pop"
    by (auto simp: validate_and_return_solution_def Let_def split: if_splits)
  from res assms(2) have len: "i < length ?pop" by simp
  then have mem: "?pop ! i \<in> set ?pop" by (rule nth_mem)
  then have pop: "clients (?pop ! i) \<noteq> []" "?pop ! i \<in> set ps" by auto
  from all_constraints_satisfied_member [OF ok mem pop(1)] pop(1)
  have "all_constraints_satisfied [?pop ! i]" by simp
  moreover from res len have "res ! i = finalize_position (s + int i) (?pop ! i)"
    by (simp add: nth_enumerate_eq)
  ultimately show ?thesis using pop by blast
qed

lemma optimize_result:
  "fst (optimize_with_strategic_enhancements cs) = []
   \<or> (\<exists>ps. validate_and_return_solution ps 1 = Some (fst (optimize_with_strategic_enhancements cs)))"
  by (auto simp: optimize_with_strategic_enhancements_def Let_def split: prod.splits option.splits)

text \<open>
  C2. Let \<open>res\<close> be what the validator returns for the start offset \<open>s\<close>, or what the
  pipeline returns (its last step is the validator with offset 1). Then every position of
  \<open>res\<close> has between 16 and 45 hours and at most 5 working days; its driver flag says
  whether some assigned client needs a driver; its tier is Part-time up to 24 hours and
  Full-time above; its driver tag is Driver exactly when the flag is set; it has at least
  one client; and the position at index \<open>i\<close> is numbered \<open>s + i\<close>.
\<close>

theorem returned_positions_valid:
  assumes "validate_and_return_solution ps s = Some res
           \<or> (res = fst (optimize_with_strategic_enhancements cs) \<and> s = 1)"
    and "i < length res"
  shows "16 \<le> total_hours (res ! i) \<and> total_hours (res ! i) \<le> 45
       \<and> working_days (res ! i) \<le> 5
       \<and> requires_driver (res ! i) = Some (list_ex needs_driver (clients (res ! i)))
       \<and> position_type (res ! i)
           = Some (if total_hours (res ! i) \<le> 24 then ''Part-time'' else ''Full-time'')
       \<and> driver_type (res ! i)
           = Some (if requires_driver (res ! i) = Some True then ''Driver'' else ''Non-driver'')
       \<and> clients (res ! i) \<noteq> []
       \<and> position_id (res ! i) = s + int i"
proof -
  from assms obtain qs where v: "validate_and_return_solution qs s = Some res"
    using optimize_result [of cs] by fastforce
  from validate_Some_nth [OF v assms(2)] obtain p where
    p: "clients p \<noteq> []" "all_constraints_satisfied [p]"
       "res ! i = finalize_position (s + int i) p"
    by blast
  from p(1,2) have c: "16 \<le> total_hours p" "total_hours p \<le> 45" "working_days p \<le> 5"
      "requires_driver p = Some (any_needs_driver (clients p))"
    by (auto split: if_splits)
  show ?thesis
    unfolding p(3) finalize_position_checked [OF p(1) c(4)]
    using p(1) c by (simp add: any_needs_driver_def)
qed

theorem returned_positions_valid_witness:
  "(let res = fst (optimize_with_strategic_enhancements
       [example_client 0 ''Client A'' 30 3 True ''90210'',
        example_client 1 ''Client B'' 10 2 True ''90210''])
    in length res = 1 \<and> 16 \<le> total_hours (res ! 0) \<and> total_hours (res ! 0) \<le> 45
       \<and> working_days (res ! 0) \<le> 5 \<and> clients (res ! 0) \<noteq> []
       \<and> requires_driver (res ! 0) = Some True
       \<and> position_type (res ! 0) = Some ''Full-time''
       \<and> driver_type (res ! 0) = Some ''Driver''
       \<and> position_id (res ! 0) = 1)"
proof -
  let ?cs = "[example_client 0 ''Client A'' 30 3 True ''90210'',
              example_client 1 ''Client B'' 10 2 True ''90210'']"
  let ?res = "fst (optimize_with_strategic_enhancements ?cs)"
  have len: "length ?res = 1"
    by code_simp
  then have i: "0 < length ?res"
    by simp
  have cls: "list_ex needs_driver (clients (?res ! 0))" "\<not> total_hours (?res ! 0) \<le> 24"
    by code_simp+
  have hyp: "validate_and_return_solution [] 1 = Some ?res \<or> (?res = ?res \<and> (1::int) = 1)"
    by simp
  from returned_positions_valid [OF hyp i] len cls show ?thesis
    by (simp add: Let_def)
qed

lemma all_constraints_satisfied_iff:
  "all_constraints_satisfied ps \<longleftrightarrow>
     (\<forall>pos\<in>set ps. clients pos = [] \<or>
        (16 \<le> total_hours pos \<and> total_hours pos \<le> 45 \<and> working_days pos \<le> 5
         \<and> requires_driver pos = Some (list_ex needs_driver (clients pos))))"
  by (induction ps) (auto simp: any_needs_driver_def)

lemma validate_None_iff:
  "validate_and_return_solution ps s = None
   \<longleftrightarrow> \<not> all_constraints_satisfied (filter (\<lambda>pos. clients pos \<noteq> []) ps)"
  by (auto simp: validate_and_return_solution_def Let_def list_ex_iff filter_empty_conv)

text \<open>
  C8, as the code has it. For every list of positions in which every position is empty,
  the validator returns the empty list, the value of an empty successful assignment, and
  not the failure signal \<open>None\<close>: the branch that would return \<open>None\<close> asks for no
  populated position and some populated position at once. The validator returns \<open>None\<close>
  exactly when some position with a client has less than 16 or more than 45 hours, or
  more than 5 working days, or a driver flag other than whether one of its clients needs
  a driver.
\<close>

theorem validate_all_empty:
  "(list_all (\<lambda>pos. clients pos = []) ps \<longrightarrow> validate_and_return_solution ps s = Some [])
   \<and> (validate_and_return_solution ps s = None
        \<longleftrightarrow> (\<exists>pos\<in>set ps. clients pos \<noteq> []
               \<and> (total_hours pos < 16 \<or> 45 < total_hours pos \<or> 5 < working_days pos
                   \<or> requires_driver pos \<noteq> Some (list_ex needs_driver (clients pos)))))"
proof -
  have "validate_and_return_solution ps s = Some []" if "list_all (\<lambda>pos. clients pos = []) ps"
  proof -
    from that have "filter (\<lambda>pos. clients pos \<noteq> []) ps = []"
      by (simp add: filter_empty_conv list_all_iff)
    then show ?thesis
      by (simp add: validate_and_return_solution_def list_ex_iff filter_empty_conv)
  qed
  moreover have "validate_and_return_solution ps s = None
        \<longleftrightarrow> (\<exists>pos\<in>set ps. clients pos \<noteq> []
               \<and> (total_hours pos < 16 \<or> 45 < total_hours pos \<or> 5 < working_days pos
                   \<or> requires_driver pos \<noteq> Some (list_ex needs_driver (clients pos))))"
    unfolding validate_None_iff all_constraints_satisfied_iff by auto
  ultimately show ?thesis
    by blast
qed

theorem validate_all_empty_witness:
  "validate_and_return_solution [new_position 1, new_position 2] 1 = Some []
   \<and> validate_and_return_solution
        [new_position 1,
         assign_client (new_position 2) (example_client 0 ''Client N'' 10 1 False ''90210'')] 1
      = None"
proof -
  let ?small = "assign_client (new_position 2)
                  (example_client 0 ''Client N'' 10 1 False ''90210'')"
  have empty: "list_all (\<lambda>pos. clients pos = []) [new_position 1, new_position 2]"
    by (simp add: new_position_def)
  have small: "?small \<in> set [new_position 1, ?small]" "clients ?small \<noteq> []"
    "total_hours ?small < 16"
    by (simp_all add: assign_client_def new_position_def example_client_def)
  from validate_all_empty [of "[new_position 1, new_position 2]" 1]
    validate_all_empty [of "[new_position 1, ?small]" 1] empty small
  show ?thesis
    by blast
qed

theorem validate_all_empty_counterexample:
  "[new_position 1] \<noteq> []
   \<and> list_all (\<lambda>pos. clients pos = []) [new_position 1]
   \<and> validate_and_return_solution [new_position 1] 1 = Some []
   \<and> validate_and_return_solution [new_position 1] 1 \<noteq> None"
  by (simp add: validate_and_return_solution_def new_position_def)

section \<open>The splitter\<close>

lemma ceil_div_45:
  assumes "45 < h"
  shows "2 \<le> py_ceil_div h 45" "h \<le> 45 * py_ceil_div h 45" "45 * py_ceil_div h 45 < h + 45"
  using assms by (simp_all add: py_ceil_div_def)

lemma upto_int_Suc: "[0..int (Suc m) - 1] = [0..int m - 1] @ [int m]"
  using upto_rec2 [of 0 "int m"] by simp

lemma sum_list_extra:
  "0 \<le> r \<Longrightarrow> (\<Sum>i\<leftarrow>[0..int m - 1]. if i < r then 1 else 0) = min (int m) r"
  by (induction m) (auto simp: upto_int_Suc simp del: of_nat_Suc)

lemma sum_list_parts:
  assumes "0 \<le> n" "0 \<le> r" "r \<le> n"
  shows "(\<Sum>i\<leftarrow>[0..n - 1]. q + (if i < r then 1 else 0)) = n * q + r"
proof -
  from assms(1) obtain m where n: "n = int m"
    using nonneg_int_cases by blast
  have "(\<Sum>i\<leftarrow>[0..n - 1]. q + (if i < r then 1 else 0))
        = (\<Sum>i\<leftarrow>[0..n - 1]. q) + (\<Sum>i\<leftarrow>[0..n - 1]. if i < r then 1 else 0)"
    by (rule sum_list_addf)
  also have "(\<Sum>i\<leftarrow>[0..n - 1]. q) = n * q"
    using assms(1) by (simp add: sum_list_triv)
  also have "(\<Sum>i\<leftarrow>[0..n - 1]. if i < r then 1 else 0) = r"
    using sum_list_extra [OF assms(2), of m] assms(3) n by simp
  finally show ?thesis .
qed

lemma part_hours_le_45:
  fixes h n i :: int
  assumes "0 < n" "h \<le> 45 * n" "0 \<le> i"
  shows "h div n + (if i < h mod n then 1 else 0) \<le> 45"
proof (cases "i < h mod n")
  case True
  with assms(3) have "0 < h mod n" by simp
  then have "n * (h div n) < h"
    using mult_div_mod_eq [of n h] by linarith
  with assms(2) have "n * (h div n) < n * 45" by (simp add: mult.commute)
  with assms(1) have "h div n < 45" by (simp add: mult_less_cancel_left)
  with True show ?thesis by simp
next
  case False
  have "0 \<le> h mod n" using assms(1) by simp
  then have "n * (h div n) \<le> h"
    using mult_div_mod_eq [of n h] by linarith
  with assms(2) have "n * (h div n) \<le> n * 45" by (simp add: mult.commute)
  with assms(1) have "h div n \<le> 45" by (simp add: mult_le_cancel_left)
  with False show ?thesis by simp
qed

lemma assign_new_position:
  "assign_client (new_position k) q =
     \<lparr>position_id = k, clients = [q], total_hours = hours q, working_days = days q,
      requires_driver = Some (needs_driver q), zip_codes = [zip_code q],
      position_type = None, driver_type = None\<rparr>"
  by (simp add: assign_client_def new_position_def)

lemma split_loop_append:
  "split_loop cs (ps, ns, k) =
     (case split_loop cs ([], [], k) of (ps', ns', k') \<Rightarrow> (ps @ ps', ns @ ns', k'))"
proof (induction cs arbitrary: ps ns k)
  case Nil
  show ?case by simp
next
  case (Cons c cs)
  show ?case
  proof (cases "hours c > 45")
    case True
    let ?n = "py_ceil_div (hours c) 45"
    let ?made = "map (\<lambda>i. assign_client (new_position (k + i)) (split_client_part c ?n i)) [0..?n - 1]"
    show ?thesis
      using True Cons.IH [of "ps @ ?made" ns "k + ?n"] Cons.IH [of ?made "[]" "k + ?n"]
      by (simp add: Let_def split: prod.splits)
  next
    case False
    show ?thesis
      using False Cons.IH [of ps "ns @ [c]" k] Cons.IH [of "[]" "[c]" k]
      by (simp add: split: prod.splits)
  qed
qed

lemma handle_mandatory_splits_Nil: "handle_mandatory_splits [] k = ([], [])"
  by (simp add: handle_mandatory_splits_def)

lemma handle_mandatory_splits_keep:
  "\<not> hours c > 45 \<Longrightarrow>
   handle_mandatory_splits (c # cs) k =
     (fst (handle_mandatory_splits cs k), c # snd (handle_mandatory_splits cs k))"
  using split_loop_append [of cs "[]" "[c]" k]
  by (simp add: handle_mandatory_splits_def split: prod.splits)

lemma handle_mandatory_splits_split:
  "hours c > 45 \<Longrightarrow>
   handle_mandatory_splits (c # cs) k =
     (map (\<lambda>i. assign_client (new_position (k + i))
                  (split_client_part c (py_ceil_div (hours c) 45) i))
        [0..py_ceil_div (hours c) 45 - 1]
      @ fst (handle_mandatory_splits cs (k + py_ceil_div (hours c) 45)),
      snd (handle_mandatory_splits cs (k + py_ceil_div (hours c) 45)))"
  using split_loop_append [of cs "map (\<lambda>i. assign_client (new_position (k + i))
                  (split_client_part c (py_ceil_div (hours c) 45) i))
        [0..py_ceil_div (hours c) 45 - 1]" "[]" "k + py_ceil_div (hours c) 45"]
  by (simp add: handle_mandatory_splits_def Let_def split: prod.splits)

lemma split_client_part_hours_le_45:
  assumes "45 < hours c" "i \<in> set [0..py_ceil_div (hours c) 45 - 1]"
  shows "hours (split_client_part c (py_ceil_div (hours c) 45) i) \<le> 45"
proof -
  from ceil_div_45 [OF assms(1)] have "0 < py_ceil_div (hours c) 45"
    "hours c \<le> 45 * py_ceil_div (hours c) 45" by simp_all
  moreover from assms(2) have "0 \<le> i" by simp
  ultimately show ?thesis
    using part_hours_le_45 [of "py_ceil_div (hours c) 45" "hours c" i]
    by (simp add: split_client_part_def Let_def)
qed

lemma split_client_part_hours_sum:
  assumes "45 < hours c"
  shows "(\<Sum>i\<leftarrow>[0..py_ceil_div (hours c) 45 - 1].
            hours (split_client_part c (py_ceil_div (hours c) 45) i)) = hours c"
proof -
  let ?n = "py_ceil_div (hours c) 45"
  from ceil_div_45 [OF assms] have n: "0 < ?n" by simp
  then have "0 \<le> hours c mod ?n" "hours c mod ?n \<le> ?n"
    by (simp_all add: less_imp_le)
  with n have "(\<Sum>i\<leftarrow>[0..?n - 1]. hours c div ?n + (if i < hours c mod ?n then 1 else 0))
               = ?n * (hours c div ?n) + hours c mod ?n"
    by (intro sum_list_parts) simp_all
  then show ?thesis
    by (simp add: split_client_part_def Let_def)
qed

lemma splits_hours_cap:
  "p \<in> set (fst (handle_mandatory_splits cs k)) \<Longrightarrow>
     total_hours p \<le> 45 \<and> (\<forall>q\<in>set (clients p). hours q \<le> 45)"
proof (induction cs arbitrary: k)
  case Nil
  then show ?case by (simp add: handle_mandatory_splits_Nil)
next
  case (Cons c cs)
  show ?case
  proof (cases "hours c > 45")
    case True
    with Cons show ?thesis
      by (auto simp: handle_mandatory_splits_split assign_new_position
            split_client_part_hours_le_45 simp del: upto.simps)
  next
    case False
    with Cons show ?thesis
      by (simp add: handle_mandatory_splits_keep)
  qed
qed

lemma splits_total_hours:
  "sum_list (map total_hours (fst (handle_mandatory_splits cs k)))
     = sum_list (map hours (filter (\<lambda>c. hours c > 45) cs))"
proof (induction cs arbitrary: k)
  case Nil
  show ?case by (simp add: handle_mandatory_splits_Nil)
next
  case (Cons c cs)
  show ?case
  proof (cases "hours c > 45")
    case True
    with Cons show ?thesis
      using split_client_part_hours_sum [OF True]
      by (simp add: handle_mandatory_splits_split assign_new_position comp_def)
  next
    case False
    with Cons show ?thesis
      by (simp add: handle_mandatory_splits_keep)
  qed
qed

lemma splits_remaining:
  "snd (handle_mandatory_splits cs k) = filter (\<lambda>c. hours c \<le> 45) cs"
proof (induction cs arbitrary: k)
  case Nil
  show ?case by (simp add: handle_mandatory_splits_Nil)
next
  case (Cons c cs)
  then show ?case
    by (cases "hours c > 45")
      (simp_all add: handle_mandatory_splits_split handle_mandatory_splits_keep)
qed

lemma splits_sealed:
  "p \<in> set (fst (handle_mandatory_splits cs k)) \<Longrightarrow>
     \<exists>q. clients p = [q] \<and> total_hours p = hours q \<and> working_days p = days q
        \<and> requires_driver p = Some (needs_driver q) \<and> zip_codes p = [zip_code q]
        \<and> position_type p = None \<and> driver_type p = None"
proof (induction cs arbitrary: k)
  case Nil
  then show ?case by (simp add: handle_mandatory_splits_Nil)
next
  case (Cons c cs)
  show ?case
  proof (cases "hours c > 45")
    case True
    with Cons show ?thesis
      by (auto simp: handle_mandatory_splits_split assign_new_position simp del: upto.simps)
  next
    case False
    with Cons show ?thesis
      by (simp add: handle_mandatory_splits_keep)
  qed
qed

lemma upto_eq_map_int: "[0..int m - 1] = map int [0..<m]"
  by (induction m) (simp_all add: upto_int_Suc del: of_nat_Suc)

lemma upto_nat: "0 \<le> n \<Longrightarrow> [0..n - 1] = map int [0..<nat n]"
  using upto_eq_map_int [of "nat n"] by simp

lemma splits_single:
  assumes "hours c > 45"
  shows "handle_mandatory_splits [c] s =
           (map (\<lambda>i. assign_client (new_position (s + int i))
                        (split_client_part c (py_ceil_div (hours c) 45) (int i)))
              [0..<nat (py_ceil_div (hours c) 45)], [])"
proof -
  from ceil_div_45 [OF assms] have "0 \<le> py_ceil_div (hours c) 45" by simp
  then show ?thesis
    using assms
    by (simp add: handle_mandatory_splits_split handle_mandatory_splits_Nil upto_nat comp_def)
qed

lemma splits_single_small:
  "\<not> hours c > 45 \<Longrightarrow> handle_mandatory_splits [c] s = ([], [c])"
  by (simp add: handle_mandatory_splits_keep handle_mandatory_splits_Nil)

lemma splits_Cons:
  "handle_mandatory_splits (c # cs) s =
     (fst (handle_mandatory_splits [c] s)
        @ fst (handle_mandatory_splits cs (s + int (length (fst (handle_mandatory_splits [c] s))))),
      snd (handle_mandatory_splits [c] s)
        @ snd (handle_mandatory_splits cs (s + int (length (fst (handle_mandatory_splits [c] s))))))"
proof (cases "hours c > 45")
  case True
  from ceil_div_45 [OF True] have n: "0 \<le> py_ceil_div (hours c) 45" by simp
  show ?thesis
    using True n
    by (simp add: handle_mandatory_splits_split [of c cs] splits_single upto_nat comp_def)
next
  case False
  then show ?thesis
    by (simp add: handle_mandatory_splits_keep [of c cs] splits_single_small)
qed

lemma splits_single_clients:
  "map clients (fst (handle_mandatory_splits [c] s))
     = map clients (fst (handle_mandatory_splits [c] s'))"
  by (cases "hours c > 45") (simp_all add: splits_single splits_single_small assign_new_position)

lemma splits_single_ids:
  "map position_id (fst (handle_mandatory_splits [c] s))
     = map (\<lambda>k. s + int k) [0..<length (fst (handle_mandatory_splits [c] s))]"
  by (cases "hours c > 45") (simp_all add: splits_single splits_single_small assign_new_position)

lemma splits_clients_concat:
  "map clients (fst (handle_mandatory_splits cs s))
     = concat (map (\<lambda>c. map clients (fst (handle_mandatory_splits [c] s'))) cs)"
proof (induction cs arbitrary: s)
  case Nil
  show ?case by (simp add: handle_mandatory_splits_Nil)
next
  case (Cons c cs)
  let ?a = "length (fst (handle_mandatory_splits [c] s))"
  have "map clients (fst (handle_mandatory_splits (c # cs) s))
        = map clients (fst (handle_mandatory_splits [c] s))
          @ map clients (fst (handle_mandatory_splits cs (s + int ?a)))"
    by (subst splits_Cons) simp
  also have "map clients (fst (handle_mandatory_splits [c] s))
             = map clients (fst (handle_mandatory_splits [c] s'))"
    by (rule splits_single_clients)
  also have "map clients (fst (handle_mandatory_splits cs (s + int ?a)))
             = concat (map (\<lambda>c. map clients (fst (handle_mandatory_splits [c] s'))) cs)"
    by (rule Cons.IH)
  finally show ?case by simp
qed

lemma splits_ids:
  "map position_id (fst (handle_mandatory_splits cs s))
     = map (\<lambda>k. s + int k) [0..<length (fst (handle_mandatory_splits cs s))]"
proof (induction cs arbitrary: s)
  case Nil
  show ?case by (simp add: handle_mandatory_splits_Nil)
next
  case (Cons c cs)
  let ?a = "length (fst (handle_mandatory_splits [c] s))"
  let ?rest = "fst (handle_mandatory_splits cs (s + int ?a))"
  let ?b = "length ?rest"
  have split: "fst (handle_mandatory_splits (c # cs) s)
               = fst (handle_mandatory_splits [c] s) @ ?rest"
    by (subst splits_Cons) simp
  have "[0..<?a + ?b] = [0..<?a] @ [?a..<?a + ?b]"
    by (rule upt_add_eq_append) simp
  also have "[?a..<?a + ?b] = map (\<lambda>k. ?a + k) [0..<?b]"
    using map_add_upt [of ?a ?b] by (simp add: add.commute)
  finally have "map (\<lambda>k. s + int k) [0..<?a + ?b]
             = map (\<lambda>k. s + int k) [0..<?a] @ map (\<lambda>k. s + int ?a + int k) [0..<?b]"
    by (simp add: comp_def add.assoc)
  also have "map (\<lambda>k. s + int k) [0..<?a] = map position_id (fst (handle_mandatory_splits [c] s))"
    by (rule splits_single_ids [symmetric])
  also have "map (\<lambda>k. s + int ?a + int k) [0..<?b] = map position_id ?rest"
    by (rule Cons.IH [symmetric])
  finally show ?case
    unfolding split by simp
qed

text \<open>
  C5, as the code has it. A client \<open>c\<close> with more than 45 hours is split into
  \<open>n = ceil(hours / 45)\<close> sub-clients, each sealed alone into a new position numbered on
  from the start offset. The part with index \<open>i\<close> (counted from 0) gets
  \<open>hours div n\<close> hours plus one if \<open>i < hours mod n\<close>, and \<open>days div n\<close> days plus one if
  \<open>i < days mod n\<close>, except that its days are forced to 1 when that number is 0 while its
  hours and the client's days are positive; it inherits \<open>needs_driver\<close> and \<open>zip_code\<close>.
  Its name is the client's name followed by \<open>(Part i+1/n)\<close>: the parts are numbered from 1
  in the names. In a list of clients every client is split on its own, and the clients
  with at most 45 hours are returned unchanged and in order.
\<close>

theorem splitter_decomposition:
  "(hours c > 45 \<longrightarrow>
      (let n = py_ceil_div (hours c) 45; made = fst (handle_mandatory_splits [c] s)
       in snd (handle_mandatory_splits [c] s) = [] \<and> length made = nat n
          \<and> (\<forall>i<nat n. \<exists>q.
                made ! i = \<lparr>position_id = s + int i, clients = [q], total_hours = hours q,
                            working_days = days q, requires_driver = Some (needs_driver q),
                            zip_codes = [zip_code q], position_type = None,
                            driver_type = None\<rparr>
                \<and> name q = name c @ '' (Part '' @ py_str_int (int i + 1) @ ''/''
                             @ py_str_int n @ '')''
                \<and> hours q = hours c div n + (if int i < hours c mod n then 1 else 0)
                \<and> days q =
                    (if hours q > 0 \<and> days c > 0
                        \<and> days c div n + (if int i < days c mod n then 1 else 0) = 0
                     then 1
                     else days c div n + (if int i < days c mod n then 1 else 0))
                \<and> needs_driver q = needs_driver c \<and> zip_code q = zip_code c)))
   \<and> snd (handle_mandatory_splits cs s) = filter (\<lambda>c. hours c \<le> 45) cs
   \<and> map clients (fst (handle_mandatory_splits cs s))
       = concat (map (\<lambda>c. map clients (fst (handle_mandatory_splits [c] s'))) cs)
   \<and> map position_id (fst (handle_mandatory_splits cs s))
       = map (\<lambda>k. s + int k) [0..<length (fst (handle_mandatory_splits cs s))]"
proof -
  have "snd (handle_mandatory_splits [c] s) = []
        \<and> length (fst (handle_mandatory_splits [c] s)) = nat (py_ceil_div (hours c) 45)
        \<and> (\<forall>i<nat (py_ceil_div (hours c) 45). \<exists>q.
              fst (handle_mandatory_splits [c] s) ! i
               = \<lparr>position_id = s + int i, clients = [q], total_hours = hours q,
                            working_days = days q, requires_driver = Some (needs_driver q),
                            zip_codes = [zip_code q], position_type = None,
                            driver_type = None\<rparr>
                \<and> name q = name c @ '' (Part '' @ py_str_int (int i + 1) @ ''/''
                             @ py_str_int (py_ceil_div (hours c) 45) @ '')''
                \<and> hours q = hours c div py_ceil_div (hours c) 45
                      + (if int i < hours c mod py_ceil_div (hours c) 45 then 1 else 0)
                \<and> days q =
                    (if hours q > 0 \<and> days c > 0
                        \<and> days c div py_ceil_div (hours c) 45
                            + (if int i < days c mod py_ceil_div (hours c) 45 then 1 else 0) = 0
                     then 1
                     else days c div py_ceil_div (hours c) 45
                            + (if int i < days c mod py_ceil_div (hours c) 45 then 1 else 0))
                \<and> needs_driver q = needs_driver c \<and> zip_code q = zip_code c)"
    if big: "hours c > 45"
  proof (intro conjI allI impI)
    show "snd (handle_mandatory_splits [c] s) = []"
      by (simp add: splits_single [OF big])
    show "length (fst (handle_mandatory_splits [c] s)) = nat (py_ceil_div (hours c) 45)"
      by (simp add: splits_single [OF big])
  next
    fix i assume i: "i < nat (py_ceil_div (hours c) 45)"
    let ?q = "split_client_part c (py_ceil_div (hours c) 45) (int i)"
    have "fst (handle_mandatory_splits [c] s) ! i = assign_client (new_position (s + int i)) ?q"
      using i by (simp add: splits_single [OF big])
    then show "\<exists>q.
              fst (handle_mandatory_splits [c] s) ! i
               = \<lparr>position_id = s + int i, clients = [q], total_hours = hours q,
                            working_days = days q, requires_driver = Some (needs_driver q),
                            zip_codes = [zip_code q], position_type = None,
                            driver_type = None\<rparr>
                \<and> name q = name c @ '' (Part '' @ py_str_int (int i + 1) @ ''/''
                             @ py_str_int (py_ceil_div (hours c) 45) @ '')''
                \<and> hours q = hours c div py_ceil_div (hours c) 45
                      + (if int i < hours c mod py_ceil_div (hours c) 45 then 1 else 0)
                \<and> days q =
                    (if hours q > 0 \<and> days c > 0
                        \<and> days c div py_ceil_div (hours c) 45
                            + (if int i < days c mod py_ceil_div (hours c) 45 then 1 else 0) = 0
                     then 1
                     else days c div py_ceil_div (hours c) 45
                            + (if int i < days c mod py_ceil_div (hours c) 45 then 1 else 0))
                \<and> needs_driver q = needs_driver c \<and> zip_code q = zip_code c"
      by (intro exI [of _ ?q]) (simp add: assign_new_position split_client_part_def Let_def)
  qed
  then show ?thesis
    using splits_remaining splits_clients_concat splits_ids by (simp add: Let_def)
qed

theorem splitter_decomposition_witness:
  "(let c = example_client 0 ''Client C (Oversized)'' 60 5 False ''90211''
    in \<exists>q. fst (handle_mandatory_splits [c] 1) ! 1
             = \<lparr>position_id = 2, clients = [q], total_hours = hours q,
                working_days = days q, requires_driver = Some (needs_driver q),
                zip_codes = [zip_code q], position_type = None, driver_type = None\<rparr>
           \<and> name q = ''Client C (Oversized) (Part 2/2)''
           \<and> hours q = 30 \<and> days q = 2 \<and> needs_driver q = False \<and> zip_code q = ''90211'')"
proof -
  let ?c = "example_client 0 ''Client C (Oversized)'' 60 5 False ''90211''"
  have big: "hours ?c > 45"
    by (simp add: example_client_def)
  have n: "py_ceil_div (hours ?c) 45 = 2"
    by (simp add: example_client_def py_ceil_div_def)
  have str: "py_str_int 2 = ''2''"
    by code_simp
  have fields: "name ?c = ''Client C (Oversized)''" "hours ?c = 60" "days ?c = 5"
    "needs_driver ?c = False" "zip_code ?c = ''90211''"
    by (simp_all add: example_client_def)
  from splitter_decomposition [of ?c 1 "[]" 1] big
  have "\<forall>i<nat 2. \<exists>q.
          fst (handle_mandatory_splits [?c] 1) ! i
             = \<lparr>position_id = 1 + int i, clients = [q], total_hours = hours q,
                working_days = days q, requires_driver = Some (needs_driver q),
                zip_codes = [zip_code q], position_type = None, driver_type = None\<rparr>
           \<and> name q = name ?c @ '' (Part '' @ py_str_int (int i + 1) @ ''/'' @ py_str_int 2 @ '')''
           \<and> hours q = hours ?c div 2 + (if int i < hours ?c mod 2 then 1 else 0)
           \<and> days q =
                    (if hours q > 0 \<and> days ?c > 0
                        \<and> days ?c div 2 + (if int i < days ?c mod 2 then 1 else 0) = 0
                     then 1
                     else days ?c div 2 + (if int i < days ?c mod 2 then 1 else 0))
           \<and> needs_driver q = needs_driver ?c \<and> zip_code q = zip_code ?c"
    unfolding Let_def n by blast
  moreover have "(1::nat) < nat 2"
    by simp
  ultimately have "\<exists>q.
          fst (handle_mandatory_splits [?c] 1) ! 1
             = \<lparr>position_id = 1 + int 1, clients = [q], total_hours = hours q,
                working_days = days q, requires_driver = Some (needs_driver q),
                zip_codes = [zip_code q], position_type = None, driver_type = None\<rparr>
           \<and> name q = name ?c @ '' (Part '' @ py_str_int (int 1 + 1) @ ''/'' @ py_str_int 2 @ '')''
           \<and> hours q = hours ?c div 2 + (if int 1 < hours ?c mod 2 then 1 else 0)
           \<and> days q =
                    (if hours q > 0 \<and> days ?c > 0
                        \<and> days ?c div 2 + (if int 1 < days ?c mod 2 then 1 else 0) = 0
                     then 1
                     else days ?c div 2 + (if int 1 < days ?c mod 2 then 1 else 0))
           \<and> needs_driver q = needs_driver ?c \<and> zip_code q = zip_code ?c"
    by blast
  then show ?thesis
    unfolding Let_def fields by (simp add: str)
qed

theorem splitter_names_counterexample:
  "(let c = example_client 0 ''Client C (Oversized)'' 60 5 False ''90211'';
        first_part = hd (clients (fst (handle_mandatory_splits [c] 1) ! 0))
    in hours c > 45
       \<and> name first_part = ''Client C (Oversized) (Part 1/2)''
       \<and> name first_part \<noteq> name c @ '' (Part '' @ py_str_int 0 @ ''/'' @ py_str_int 2 @ '')'')"
  by code_simp

text \<open>
  C10. Every position the splitter makes, and every sub-client in it, has at most 45
  hours; the hours of the sub-clients of a client with more than 45 hours add up to the
  client's hours. The days need not: some client's sub-clients have more days in total
  than the client (days forced to 1).
\<close>

theorem split_parts_hours:
  "(\<forall>p\<in>set (fst (handle_mandatory_splits cs s)).
       total_hours p \<le> 45 \<and> (\<forall>q\<in>set (clients p). hours q \<le> 45))
   \<and> (hours c > 45 \<longrightarrow>
        sum_list (map hours (concat (map clients (fst (handle_mandatory_splits [c] s)))))
          = hours c)
   \<and> (\<exists>c' s'. hours c' > 45
        \<and> sum_list (map days (concat (map clients (fst (handle_mandatory_splits [c'] s')))))
            > days c')"
proof -
  have cap: "\<forall>p\<in>set (fst (handle_mandatory_splits cs s)).
       total_hours p \<le> 45 \<and> (\<forall>q\<in>set (clients p). hours q \<le> 45)"
    using splits_hours_cap by blast
  have total: "sum_list (map hours (concat (map clients (fst (handle_mandatory_splits [c] s)))))
          = hours c" if big: "hours c > 45"
    using split_client_part_hours_sum [OF big] big
    by (simp add: handle_mandatory_splits_split handle_mandatory_splits_Nil
          assign_new_position comp_def)
  let ?c = "example_client 0 ''C'' 100 1 False ''90211''"
  have "hours ?c > 45
        \<and> sum_list (map days (concat (map clients (fst (handle_mandatory_splits [?c] 1)))))
            > days ?c"
    by code_simp
  then have more_days: "\<exists>c' s'. hours c' > 45
        \<and> sum_list (map days (concat (map clients (fst (handle_mandatory_splits [c'] s')))))
            > days c'"
    by blast
  from cap total more_days show ?thesis
    by blast
qed

theorem split_parts_hours_witness:
  "(let c = example_client 0 ''Client C (Oversized)'' 60 5 False ''90211'';
        ps = fst (handle_mandatory_splits [c] 1)
    in map total_hours ps = [30, 30]
       \<and> list_all (\<lambda>p. total_hours p \<le> 45 \<and> list_all (\<lambda>q. hours q \<le> 45) (clients p)) ps
       \<and> sum_list (map hours (concat (map clients ps))) = 60)"
proof -
  let ?c = "example_client 0 ''Client C (Oversized)'' 60 5 False ''90211''"
  have big: "hours ?c > 45" and h: "hours ?c = 60"
    by (simp_all add: example_client_def)
  have ev: "map total_hours (fst (handle_mandatory_splits [?c] 1)) = [30, 30]"
    by code_simp
  from split_parts_hours [of "[?c]" 1 ?c] big h ev show ?thesis
    by (simp add: Let_def list_all_iff)
qed

section \<open>Assignment and unassignment\<close>

text \<open>
  C6, at an input where the code departs from it. Position 1 holds client A, whose zip
  code is the empty string; it can accept client B. Assigning B and unassigning it again
  restores the clients, the hours, the days and the driver flag, but not the zip codes:
  \<^verbatim>\<open>assign_client\<close> had recorded A's empty zip code, and the recomputation in
  \<^verbatim>\<open>unassign_client\<close> leaves empty zip codes out.
\<close>

theorem assign_then_unassign_drops_empty_zip:
  "(let a = example_client 0 ''A'' 30 1 False '''';
        b = example_client 1 ''B'' 15 1 False ''90210'';
        p = assign_client (new_position 1) a;
        p' = fst (unassign_client (assign_client p b) b)
    in can_accept_client p b \<and> b \<notin> set (clients p)
       \<and> clients p' = clients p \<and> total_hours p' = total_hours p
       \<and> working_days p' = working_days p \<and> requires_driver p' = requires_driver p
       \<and> zip_codes p = [''''] \<and> zip_codes p' = []
       \<and> set (zip_codes p') \<noteq> set (zip_codes p))"
  by code_simp

text \<open>
  Where the round trip does hold: the client is not yet in the position, the driver flag
  of the position is the one its clients give, and the zip codes of the position are the
  non-empty zip codes of its clients.
\<close>

lemma assign_then_unassign_restores:
  assumes "c \<notin> set (clients p)"
    and "requires_driver p
           = (if clients p = [] then None else Some (any_needs_driver (clients p)))"
    and "set (zip_codes p) = {z \<in> zip_code ` set (clients p). z \<noteq> []}"
  shows "clients (fst (unassign_client (assign_client p c) c)) = clients p"
    and "total_hours (fst (unassign_client (assign_client p c) c)) = total_hours p"
    and "working_days (fst (unassign_client (assign_client p c) c)) = working_days p"
    and "requires_driver (fst (unassign_client (assign_client p c) c)) = requires_driver p"
    and "set (zip_codes (fst (unassign_client (assign_client p c) c))) = set (zip_codes p)"
proof -
  have rem: "remove1 c (clients p @ [c]) = clients p"
    using assms(1) by (simp add: remove1_append)
  show "clients (fst (unassign_client (assign_client p c) c)) = clients p"
    and "total_hours (fst (unassign_client (assign_client p c) c)) = total_hours p"
    and "working_days (fst (unassign_client (assign_client p c) c)) = working_days p"
    using rem by (simp_all add: unassign_client_def assign_client_def Let_def)
  show "requires_driver (fst (unassign_client (assign_client p c) c)) = requires_driver p"
    using rem assms(2) by (simp add: unassign_client_def assign_client_def Let_def)
  show "set (zip_codes (fst (unassign_client (assign_client p c) c))) = set (zip_codes p)"
    using rem assms(3)
    by (auto simp: unassign_client_def assign_client_def Let_def recalculated_zip_codes_def)
qed

lemma clients_assign_client [simp]: "clients (assign_client p c) = clients p @ [c]"
  by (simp add: assign_client_def Let_def)

lemma total_hours_assign_client [simp]:
  "total_hours (assign_client p c) = total_hours p + hours c"
  by (simp add: assign_client_def Let_def)

lemma clients_unassign_client:
  "c \<in> set (clients p) \<Longrightarrow> clients (fst (unassign_client p c)) = remove1 c (clients p)"
  by (simp add: unassign_client_def Let_def)

lemma total_hours_unassign_client:
  "c \<in> set (clients p) \<Longrightarrow>
     total_hours (fst (unassign_client p c)) = total_hours p - hours c"
  by (simp add: unassign_client_def Let_def)

lemma sum_list_map_update:
  fixes f :: "'a \<Rightarrow> 'b::comm_monoid_add"
  shows "j < length ps \<Longrightarrow> f q = f (ps ! j) + d \<Longrightarrow>
         sum_list (map f (ps[j := q])) = sum_list (map f ps) + d"
proof (induction ps arbitrary: j)
  case Nil
  then show ?case by simp
next
  case (Cons p ps)
  then show ?case
    by (cases j) (simp_all add: ac_simps)
qed

section \<open>The backtracker\<close>

text \<open>
  What a call of the backtracker does to the clients held by the positions: when it
  succeeds, the clients from \<open>client_index\<close> on have been added to the positions; when it
  fails, every position holds the clients it held before.
\<close>

lemma backtrack_clients:
  "length (snd (backtrack_assignment cs ps i)) = length ps
   \<and> (if fst (backtrack_assignment cs ps i)
       then sum_list (map (\<lambda>p. mset (clients p)) (snd (backtrack_assignment cs ps i)))
              = sum_list (map (\<lambda>p. mset (clients p)) ps) + mset (drop i cs)
       else map (\<lambda>p. mset (clients p)) (snd (backtrack_assignment cs ps i))
              = map (\<lambda>p. mset (clients p)) ps)"
  and
  "set js \<subseteq> {..<length ps} \<Longrightarrow> i < length cs \<Longrightarrow> c = cs ! i \<Longrightarrow>
   length (snd (try_positions cs ps i c js)) = length ps
   \<and> (if fst (try_positions cs ps i c js)
       then sum_list (map (\<lambda>p. mset (clients p)) (snd (try_positions cs ps i c js)))
              = sum_list (map (\<lambda>p. mset (clients p)) ps) + mset (drop i cs)
       else map (\<lambda>p. mset (clients p)) (snd (try_positions cs ps i c js))
              = map (\<lambda>p. mset (clients p)) ps)"
proof (induction cs ps i and cs ps i c js rule: backtrack_assignment_try_positions.induct)
  case (1 cs ps i)
  show ?case
  proof (cases "length cs \<le> i")
    case True
    then show ?thesis by (simp add: backtrack_assignment.simps [of cs ps i])
  next
    case False
    have "set [0..<length ps] \<subseteq> {..<length ps}"
      by auto
    from 1 [OF False this] False show ?thesis
      by (simp add: backtrack_assignment.simps [of cs ps i])
  qed
next
  case (2 cs ps i c)
  show ?case by simp
next
  case (3 cs ps i c j js)
  let ?M = "\<lambda>p. mset (clients p)"
  from "3.prems" have j: "j < length ps" and js: "set js \<subseteq> {..<length ps}"
    and i: "i < length cs" and c: "c = cs ! i"
    by simp_all
  show ?case
  proof (cases "can_accept_client (ps ! j) c")
    case False
    then have "try_positions cs ps i c (j # js) = try_positions cs ps i c js"
      by simp
    with "3.IH"(3) [OF False js i c] show ?thesis
      by simp
  next
    case True
    let ?ps1 = "ps[j := assign_client (ps ! j) c]"
    obtain found ps2 where r: "backtrack_assignment cs ?ps1 (i + 1) = (found, ps2)"
      by (cases "backtrack_assignment cs ?ps1 (i + 1)")
    have IH1: "length ps2 = length ?ps1
      \<and> (if found
          then sum_list (map ?M ps2) = sum_list (map ?M ?ps1) + mset (drop (i + 1) cs)
          else map ?M ps2 = map ?M ?ps1)"
      using "3.IH"(1) [OF True] unfolding r fst_conv snd_conv .
    then have len2: "length ps2 = length ps"
      by simp
    have sum1: "sum_list (map ?M ?ps1) = sum_list (map ?M ps) + {#c#}"
      using j by (intro sum_list_map_update) simp_all
    show ?thesis
    proof (cases found)
      case found: True
      have eq: "try_positions cs ps i c (j # js) = (True, ps2)"
        using True r found by simp
      have "drop i cs = c # drop (i + 1) cs"
        using i c by (simp add: Cons_nth_drop_Suc)
      with IH1 found sum1 len2 show ?thesis
        unfolding eq by simp
    next
      case not_found: False
      let ?ps3 = "ps2[j := fst (unassign_client (ps2 ! j) c)]"
      have eq: "try_positions cs ps i c (j # js) = try_positions cs ?ps3 i c js"
        using True r not_found by simp
      from not_found IH1 have same: "map ?M ps2 = map ?M ?ps1"
        by simp
      then have "map ?M ps2 ! j = map ?M ?ps1 ! j"
        by simp
      then have m2: "mset (clients (ps2 ! j)) = mset (clients (ps ! j)) + {#c#}"
        using j len2 by simp
      then have "c \<in># mset (clients (ps2 ! j))"
        by simp
      then have mem: "c \<in> set (clients (ps2 ! j))"
        by simp
      have "?M (fst (unassign_client (ps2 ! j) c)) = ?M (ps ! j)"
        using m2 by (simp add: clients_unassign_client [OF mem])
      then have "map ?M ?ps3 = (map ?M ps2)[j := ?M (ps ! j)]"
        by (simp add: map_update)
      also have "\<dots> = (map ?M ps)[j := ?M (ps ! j)]"
        unfolding same by (simp add: map_update)
      also have "\<dots> = map ?M ps"
        using j by (simp add: list_update_same_conv)
      finally have m3: "map ?M ?ps3 = map ?M ps" .
      have len3: "length ?ps3 = length ps"
        using len2 by simp
      have js3: "set js \<subseteq> {..<length ?ps3}"
        using js len3 by simp
      have not_found': "found = False"
        using not_found by simp
      show ?thesis
        using "3.IH"(2) [OF True r [symmetric] not_found' js3 i c]
        unfolding eq m3 len3 .
    qed
  qed
qed

text \<open>
  The backtracker keeps the hour total of every position equal to the sum of the hours
  of its clients.
\<close>

lemma assign_client_hours_sum:
  "total_hours p = sum_list (map hours (clients p)) \<Longrightarrow>
   total_hours (assign_client p c) = sum_list (map hours (clients (assign_client p c)))"
  by simp

lemma unassign_client_hours_sum:
  assumes "total_hours p = sum_list (map hours (clients p))"
  shows "total_hours (fst (unassign_client p c))
           = sum_list (map hours (clients (fst (unassign_client p c))))"
proof (cases "c \<in> set (clients p)")
  case True
  from sum_list_map_remove1 [OF True, of hours] assms show ?thesis
    by (simp add: clients_unassign_client [OF True] total_hours_unassign_client [OF True])
next
  case False
  with assms show ?thesis
    by (simp add: unassign_client_def)
qed

lemma list_update_all:
  "\<forall>p\<in>set ps. P p \<Longrightarrow> P q \<Longrightarrow> \<forall>p\<in>set (ps[j := q]). P p"
  using set_update_subset_insert [of ps j q] by auto

lemma backtrack_hours_sum:
  "\<forall>p\<in>set ps. total_hours p = sum_list (map hours (clients p)) \<Longrightarrow>
   \<forall>p\<in>set (snd (backtrack_assignment cs ps i)).
      total_hours p = sum_list (map hours (clients p))"
  and
  "\<forall>p\<in>set ps. total_hours p = sum_list (map hours (clients p)) \<Longrightarrow>
   set js \<subseteq> {..<length ps} \<Longrightarrow> i < length cs \<Longrightarrow> c = cs ! i \<Longrightarrow>
   \<forall>p\<in>set (snd (try_positions cs ps i c js)).
      total_hours p = sum_list (map hours (clients p))"
proof (induction cs ps i and cs ps i c js rule: backtrack_assignment_try_positions.induct)
  case (1 cs ps i)
  show ?case
  proof (cases "length cs \<le> i")
    case True
    with "1.prems" show ?thesis
      by (simp add: backtrack_assignment.simps [of cs ps i])
  next
    case False
    have "set [0..<length ps] \<subseteq> {..<length ps}"
      by auto
    from "1.IH" [OF False "1.prems" this] False show ?thesis
      by (simp add: backtrack_assignment.simps [of cs ps i])
  qed
next
  case (2 cs ps i c)
  then show ?case by simp
next
  case (3 cs ps i c j js)
  let ?H = "\<lambda>p. total_hours p = sum_list (map hours (clients p))"
  from "3.prems" have inv: "\<forall>p\<in>set ps. ?H p"
    and j: "j < length ps" and js: "set js \<subseteq> {..<length ps}"
    and i: "i < length cs" and c: "c = cs ! i"
    by simp_all
  show ?case
  proof (cases "can_accept_client (ps ! j) c")
    case False
    then have "try_positions cs ps i c (j # js) = try_positions cs ps i c js"
      by simp
    with "3.IH"(3) [OF False inv js i c] show ?thesis
      by simp
  next
    case True
    let ?ps1 = "ps[j := assign_client (ps ! j) c]"
    obtain found ps2 where r: "backtrack_assignment cs ?ps1 (i + 1) = (found, ps2)"
      by (cases "backtrack_assignment cs ?ps1 (i + 1)")
    from inv j have "?H (ps ! j)"
      by simp
    then have "?H (assign_client (ps ! j) c)"
      by (rule assign_client_hours_sum)
    with inv have inv1: "\<forall>p\<in>set ?ps1. ?H p"
      by (rule list_update_all)
    have inv2: "\<forall>p\<in>set ps2. ?H p"
      using "3.IH"(1) [OF True inv1] unfolding r snd_conv .
    have len2: "length ps2 = length ps"
      using backtrack_clients(1) [of cs ?ps1 "i + 1"] unfolding r by simp
    show ?thesis
    proof (cases found)
      case found: True
      have "try_positions cs ps i c (j # js) = (True, ps2)"
        using True r found by simp
      with inv2 show ?thesis
        by simp
    next
      case not_found: False
      let ?ps3 = "ps2[j := fst (unassign_client (ps2 ! j) c)]"
      have eq: "try_positions cs ps i c (j # js) = try_positions cs ?ps3 i c js"
        using True r not_found by simp
      from inv2 j len2 have "?H (ps2 ! j)"
        by simp
      then have "?H (fst (unassign_client (ps2 ! j) c))"
        by (rule unassign_client_hours_sum)
      with inv2 have inv3: "\<forall>p\<in>set ?ps3. ?H p"
        by (rule list_update_all)
      have js3: "set js \<subseteq> {..<length ?ps3}"
        using js len2 by simp
      have not_found': "found = False"
        using not_found by simp
      show ?thesis
        using "3.IH"(2) [OF True r [symmetric] not_found' inv3 js3 i c]
        unfolding eq .
    qed
  qed
qed

text \<open>
  The same in a whole search: the backtracker first puts B with A, takes it back and ends
  with A and C in position 1, whose zip codes have lost A's; position 2 has not been
  through an unassignment and keeps B's empty zip code.
\<close>

lemma backtracking_forgets_empty_zip:
  "map (\<lambda>p. (map name (clients p), zip_codes p))
     (constraint_satisfaction_algorithm
        [example_client 0 ''A'' 30 1 False '''',
         example_client 1 ''B'' 15 1 False '''',
         example_client 2 ''C'' 10 4 False ''90210'',
         example_client 3 ''D'' 10 4 False ''90210''] 1)
   = [([''A'', ''C''], [''90210'']), ([''B'', ''D''], ['''', ''90210''])]"
  by code_simp

section \<open>Attempts and the search over targets\<close>

lemma finalize_position_keeps [simp]:
  "clients (finalize_position n p) = clients p"
  "total_hours (finalize_position n p) = total_hours p"
  by (simp_all add: finalize_position_def Let_def)

lemma validate_Some_contents:
  assumes "validate_and_return_solution ps s = Some v"
  shows "map clients v = map clients (filter (\<lambda>p. clients p \<noteq> []) ps)"
    and "map total_hours v = map total_hours (filter (\<lambda>p. clients p \<noteq> []) ps)"
proof -
  let ?pop = "filter (\<lambda>p. clients p \<noteq> []) ps"
  from assms have "v = map (\<lambda>(i, p). finalize_position (s + int i) p) (enumerate 0 ?pop)"
    by (auto simp: validate_and_return_solution_def Let_def split: if_splits)
  then have "map clients v = map (clients \<circ> snd) (enumerate 0 ?pop)"
    and "map total_hours v = map (total_hours \<circ> snd) (enumerate 0 ?pop)"
    by (simp_all add: comp_def case_prod_unfold)
  then show "map clients v = map clients ?pop" "map total_hours v = map total_hours ?pop"
    by (simp_all flip: map_map)
qed

lemma populated_clients_sum:
  "sum_list (map (\<lambda>p. mset (clients p)) (filter (\<lambda>p. clients p \<noteq> []) ps))
     = sum_list (map (\<lambda>p. mset (clients p)) ps)"
  by (induction ps) simp_all

lemma populated_hours_sum:
  "\<forall>p\<in>set ps. total_hours p = sum_list (map hours (clients p)) \<Longrightarrow>
   sum_list (map total_hours (filter (\<lambda>p. clients p \<noteq> []) ps))
     = sum_list (map total_hours ps)"
  by (induction ps) simp_all

lemma hours_sum_of_clients:
  "\<forall>p\<in>set ps. total_hours p = sum_list (map hours (clients p)) \<Longrightarrow>
   sum_list (map total_hours ps)
     = sum_mset (image_mset hours (sum_list (map (\<lambda>p. mset (clients p)) ps)))"
  by (induction ps) (simp_all add: sum_mset_sum_list flip: mset_map)

lemma mset_concat_clients:
  "mset (concat (map clients ps)) = sum_list (map (\<lambda>p. mset (clients p)) ps)"
  by (induction ps) simp_all

text \<open>
  A successful attempt returns positions that hold exactly the clients it was given,
  and whose hours add up to the clients' hours.
\<close>

lemma attempt_assignment_Some:
  assumes "attempt_assignment cs t s = Some v"
  shows "mset (concat (map clients v)) = mset cs"
    and "sum_list (map total_hours v) = sum_list (map hours cs)"
proof -
  let ?M = "\<lambda>p. mset (clients p)"
  let ?H = "\<lambda>p. total_hours p = sum_list (map hours (clients p))"
  have both: "sum_list (map ?M v) = mset cs \<and> sum_list (map total_hours v) = sum_list (map hours cs)"
  proof (cases "cs = []")
    case True
    with assms show ?thesis
      by (simp add: attempt_assignment_def)
  next
    case False
    let ?ps0 = "map (\<lambda>i. new_position (s + i)) [0..t - 1]"
    let ?sorted = "sort_by_assignment_difficulty cs"
    obtain found raw where r: "backtrack_assignment ?sorted ?ps0 0 = (found, raw)"
      by (cases "backtrack_assignment ?sorted ?ps0 0")
    from assms False r have found: "found"
      and v: "validate_and_return_solution raw s = Some v"
      by (auto simp: attempt_assignment_def Let_def split: if_splits option.splits bool.splits)
    have empty0: "sum_list (map ?M ?ps0) = {#}"
      by (simp add: new_position_def comp_def)
    have inv0: "\<forall>p\<in>set ?ps0. ?H p"
      by (simp add: new_position_def)
    from backtrack_clients(1) [of ?sorted ?ps0 0] found empty0
    have raw: "sum_list (map ?M raw) = mset cs"
      unfolding r by (simp add: sort_by_assignment_difficulty_def)
    from backtrack_hours_sum(1) [OF inv0, of ?sorted 0]
    have inv: "\<forall>p\<in>set raw. ?H p"
      unfolding r by simp
    let ?pop = "filter (\<lambda>p. clients p \<noteq> []) raw"
    from inv have inv_pop: "\<forall>p\<in>set ?pop. ?H p"
      by simp
    have "map ?M v = map mset (map clients v)"
      by simp
    also have "\<dots> = map ?M ?pop"
      unfolding validate_Some_contents(1) [OF v] by simp
    finally have "sum_list (map ?M v) = sum_list (map ?M raw)"
      by (simp only: populated_clients_sum)
    with raw have clients_v: "sum_list (map ?M v) = mset cs"
      by simp
    have "sum_list (map total_hours v) = sum_list (map total_hours raw)"
      unfolding validate_Some_contents(2) [OF v] using inv by (rule populated_hours_sum)
    also have "\<dots> = sum_mset (image_mset hours (sum_list (map ?M raw)))"
      using inv by (rule hours_sum_of_clients)
    also have "\<dots> = sum_list (map hours cs)"
      unfolding raw by (simp add: sum_mset_sum_list flip: mset_map)
    finally show ?thesis
      using clients_v by simp
  qed
  then show "mset (concat (map clients v)) = mset cs"
    and "sum_list (map total_hours v) = sum_list (map hours cs)"
    by (simp_all add: mset_concat_clients)
qed

lemma search_targets_result:
  "search_targets cs ts s \<noteq> [] \<Longrightarrow>
     \<exists>t\<in>set ts. attempt_assignment cs t s = Some (search_targets cs ts s)"
  by (induction ts) (auto split: option.splits if_splits)

lemma constraint_satisfaction_algorithm_result:
  assumes "constraint_satisfaction_algorithm cs s \<noteq> []"
  shows "\<exists>t. attempt_assignment
               (if sum_list (map hours cs) = 0 then filter (\<lambda>c. hours c > 0) cs else cs) t s
             = Some (constraint_satisfaction_algorithm cs s)"
  using assms search_targets_result
  by (fastforce simp: constraint_satisfaction_algorithm_def Let_def split: if_splits)

lemma validate_Some_populated:
  assumes "validate_and_return_solution ps s = Some v"
  shows "\<forall>p\<in>set v. clients p \<noteq> []"
proof -
  have "set (map clients v) \<subseteq> {cl. cl \<noteq> []}"
    unfolding validate_Some_contents(1) [OF assms] by auto
  then show ?thesis by auto
qed

lemma attempt_assignment_populated:
  assumes "attempt_assignment cs t s = Some v"
  shows "\<forall>p\<in>set v. clients p \<noteq> []"
proof (cases "cs = []")
  case True
  with assms show ?thesis
    by (simp add: attempt_assignment_def)
next
  case False
  with assms obtain raw where "validate_and_return_solution raw s = Some v"
    by (auto simp: attempt_assignment_def Let_def split: if_splits option.splits prod.splits bool.splits)
  then show ?thesis
    by (rule validate_Some_populated)
qed

lemma constraint_satisfaction_algorithm_populated:
  "\<forall>p\<in>set (constraint_satisfaction_algorithm cs s). clients p \<noteq> []"
proof (cases "constraint_satisfaction_algorithm cs s = []")
  case True
  then show ?thesis by simp
next
  case False
  from constraint_satisfaction_algorithm_result [OF False] show ?thesis
    using attempt_assignment_populated by blast
qed

lemma constraint_satisfaction_algorithm_Nil [simp]:
  "constraint_satisfaction_algorithm [] s = []"
  by (simp add: constraint_satisfaction_algorithm_def)

lemma constraint_satisfaction_algorithm_all_zero:
  "list_all (\<lambda>c. hours c = 0) cs \<Longrightarrow> constraint_satisfaction_algorithm cs s = []"
proof -
  assume zero: "list_all (\<lambda>c. hours c = 0) cs"
  then have "sum_list (map hours cs) = 0"
    by (induction cs) simp_all
  moreover from zero have "filter (\<lambda>c. hours c > 0) cs = []"
    by (simp add: filter_empty_conv list_all_iff)
  ultimately show ?thesis
    by (simp add: constraint_satisfaction_algorithm_def)
qed

lemma nonneg_sum_zero:
  "list_all (\<lambda>c. 0 \<le> hours c) cs \<Longrightarrow> sum_list (map hours cs) = 0 \<Longrightarrow>
     list_all (\<lambda>c. hours c = 0) cs"
proof (induction cs)
  case Nil
  show ?case by simp
next
  case (Cons c cs)
  from Cons.prems(1) have c: "0 \<le> hours c" and rest: "list_all (\<lambda>c. 0 \<le> hours c) cs"
    by simp_all
  from rest have "0 \<le> sum_list (map hours cs)"
    by (intro sum_list_nonneg) (auto simp: list_all_iff)
  moreover from Cons.prems(2) have "hours c + sum_list (map hours cs) = 0"
    by simp
  ultimately have "hours c = 0" "sum_list (map hours cs) = 0"
    using c by linarith+
  with Cons.IH [OF rest] show ?case
    by simp
qed

lemma nonneg_sum_positive:
  "list_all (\<lambda>c. 0 \<le> hours c) cs \<Longrightarrow>
     sum_list (map hours (filter (\<lambda>c. hours c > 0) cs)) = sum_list (map hours cs)"
  by (induction cs) auto

lemma sum_hours_partition:
  "sum_list (map hours cs)
     = sum_list (map hours (filter (\<lambda>c. hours c > 45) cs))
       + sum_list (map hours (filter (\<lambda>c. hours c \<le> 45) cs))"
  by (induction cs) auto

text \<open>
  C4, as the code has it. The search filters the zero-hour clients out only when the total
  of the clients' hours is 0. Then no client without hours is in a returned position, and
  when every client has 0 hours the result is the empty schedule. When the total is not 0
  nothing is filtered: the targets run up to the number of all clients, and a non-empty
  result holds every client of the list, those with 0 hours too.
\<close>

theorem zero_hour_filtering:
  "(list_all (\<lambda>c. hours c = 0) cs \<longrightarrow> constraint_satisfaction_algorithm cs s = [])
   \<and> (sum_list (map hours cs) = 0 \<longrightarrow>
        (\<forall>p\<in>set (constraint_satisfaction_algorithm cs s). \<forall>c\<in>set (clients p). hours c > 0))
   \<and> (sum_list (map hours cs) \<noteq> 0 \<longrightarrow>
        constraint_satisfaction_algorithm cs s
          = search_targets cs
              [max 1 (if sum_list (map hours cs) > 0
                      then py_ceil_div (sum_list (map hours cs)) 45 else 0)
               ..int (length cs)] s
        \<and> (constraint_satisfaction_algorithm cs s \<noteq> [] \<longrightarrow>
             mset (concat (map clients (constraint_satisfaction_algorithm cs s))) = mset cs))"
proof -
  let ?res = "constraint_satisfaction_algorithm cs s"
  have all_zero: "?res = []" if "list_all (\<lambda>c. hours c = 0) cs"
    using that by (rule constraint_satisfaction_algorithm_all_zero)
  have filtered: "\<forall>p\<in>set ?res. \<forall>c\<in>set (clients p). hours c > 0"
    if zero: "sum_list (map hours cs) = 0"
  proof (cases "?res = []")
    case True
    then show ?thesis by simp
  next
    case False
    from constraint_satisfaction_algorithm_result [OF False] zero
    obtain t where "attempt_assignment (filter (\<lambda>c. hours c > 0) cs) t s = Some ?res"
      by auto
    then have "mset (concat (map clients ?res)) = mset (filter (\<lambda>c. hours c > 0) cs)"
      by (rule attempt_assignment_Some(1))
    then have "set (concat (map clients ?res)) = set (filter (\<lambda>c. hours c > 0) cs)"
      by (rule mset_eq_setD)
    then show ?thesis
      by auto
  qed
  have unfiltered: "?res = search_targets cs
              [max 1 (if sum_list (map hours cs) > 0
                      then py_ceil_div (sum_list (map hours cs)) 45 else 0)
               ..int (length cs)] s"
    if "sum_list (map hours cs) \<noteq> 0"
  proof -
    from that have "cs \<noteq> []"
      by auto
    with that show ?thesis
      by (simp add: constraint_satisfaction_algorithm_def Let_def)
  qed
  have everyone: "mset (concat (map clients ?res)) = mset cs"
    if "sum_list (map hours cs) \<noteq> 0" "?res \<noteq> []"
  proof -
    from constraint_satisfaction_algorithm_result [OF that(2)] that(1)
    obtain t where "attempt_assignment cs t s = Some ?res"
      by auto
    then show ?thesis
      by (rule attempt_assignment_Some(1))
  qed
  from all_zero filtered unfiltered everyone show ?thesis
    by blast
qed

theorem zero_hour_filtering_witness:
  "constraint_satisfaction_algorithm
     [example_client 0 ''Client L'' 0 3 True ''90210'',
      example_client 1 ''Client M'' 0 2 True ''90210''] 1 = []
   \<and> mset (concat (map clients (constraint_satisfaction_algorithm
        [example_client 0 ''A'' 20 1 False ''90210'',
         example_client 1 ''B'' 0 1 False ''90210''] 1)))
      = mset [example_client 0 ''A'' 20 1 False ''90210'',
              example_client 1 ''B'' 0 1 False ''90210'']"
proof -
  let ?zeros = "[example_client 0 ''Client L'' 0 3 True ''90210'',
                 example_client 1 ''Client M'' 0 2 True ''90210'']"
  let ?mixed = "[example_client 0 ''A'' 20 1 False ''90210'',
                 example_client 1 ''B'' 0 1 False ''90210'']"
  have zeros: "list_all (\<lambda>c. hours c = 0) ?zeros"
    by (simp add: example_client_def)
  have total: "sum_list (map hours ?mixed) \<noteq> 0"
    by (simp add: example_client_def)
  have found: "constraint_satisfaction_algorithm ?mixed 1 \<noteq> []"
    by code_simp
  from zero_hour_filtering [of ?zeros 1] zero_hour_filtering [of ?mixed 1] zeros total found
  show ?thesis
    by blast
qed

theorem zero_hour_client_counterexample:
  "(let a = example_client 0 ''A'' 20 1 False ''90210'';
        b = example_client 1 ''B'' 0 1 False ''90210''
    in hours b = 0
       \<and> map (\<lambda>p. (clients p, total_hours p, working_days p))
            (constraint_satisfaction_algorithm [a, b] 1)
          = [([a, b], 20, 2)])"
  by code_simp

text \<open>
  C1, at an input where the code departs from it. For the clients A (40 h), B (10 h),
  C (5 h) and D (5 h) the range of targets starts at 2, and two positions do hold them
  validly: A alone (40 h) and B, C, D together (20 h), each assignment accepted by
  \<^verbatim>\<open>can_accept_client\<close> and the pair accepted by the validator with every client
  name. The search returns the empty schedule all the same: for each target the
  backtracker's first complete placement is A with C (45 h) and B with D (15 h), which
  the validator refuses, and the search goes on to the next target instead of back into
  the backtracker.
\<close>

theorem search_misses_solution:
  "(let a = example_client 0 ''A'' 40 1 False ''90210'';
        b = example_client 1 ''B'' 10 1 False ''90210'';
        c = example_client 2 ''C'' 5 1 False ''90210'';
        d = example_client 3 ''D'' 5 1 False ''90210'';
        p1 = assign_client (new_position 1) a;
        p2 = assign_client (assign_client (assign_client (new_position 2) b) c) d
    in constraint_satisfaction_algorithm [a, b, c, d] 1 = []
       \<and> max 1 (py_ceil_div (sum_list (map hours [a, b, c, d])) 45) = 2
       \<and> can_accept_client (new_position 1) a
       \<and> can_accept_client (new_position 2) b
       \<and> can_accept_client (assign_client (new_position 2) b) c
       \<and> can_accept_client (assign_client (assign_client (new_position 2) b) c) d
       \<and> map_option (map (\<lambda>p. (map name (clients p), total_hours p, working_days p)))
            (validate_and_return_solution [p1, p2] 1)
           = Some [([''A''], 40, 1), ([''B'', ''C'', ''D''], 20, 3)]
       \<and> map_option assigned_client_names (validate_and_return_solution [p1, p2] 1)
           = Some (set (map name [a, b, c, d])))"
  by code_simp

section \<open>Reading malformed records\<close>

text \<open>
  C7, at an input where the code departs from it. The second record holds \<^verbatim>\<open>None\<close>
  under \<^verbatim>\<open>hours\<close>: \<^verbatim>\<open>int(None)\<close> raises \<^verbatim>\<open>TypeError\<close>, which the
  \<^verbatim>\<open>except ValueError\<close> clause does not catch, so the exception ends the whole run.
  With a string that is no number in the same place the record is skipped and the other
  client is scheduled.
\<close>

theorem type_error_is_fatal:
  "generate_optimal_schedule
     [\<lparr>d_name = Some ''Client A'', d_hours = Some (PyInt 30), d_days = Some (PyInt 3),
       d_needs_driver = Some (PyBool True), d_zip_code = Some (PyStr ''90210'')\<rparr>,
      \<lparr>d_name = Some ''Client B'', d_hours = Some PyNone, d_days = Some (PyInt 2),
       d_needs_driver = Some (PyBool True), d_zip_code = Some (PyStr ''90210'')\<rparr>]
   = Inl TypeError
   \<and> generate_optimal_schedule
     [\<lparr>d_name = Some ''Client A'', d_hours = Some (PyInt 30), d_days = Some (PyInt 3),
       d_needs_driver = Some (PyBool True), d_zip_code = Some (PyStr ''90210'')\<rparr>,
      \<lparr>d_name = Some ''Client B'', d_hours = Some (PyStr ''ten''), d_days = Some (PyInt 2),
       d_needs_driver = Some (PyBool True), d_zip_code = Some (PyStr ''90210'')\<rparr>]
   = Inr [\<lparr>caregiver_id = ''CG_1'', entry_type = ''Full-time Driver'', weekly_hours = 30,
           entry_working_days = 3, entry_clients = [''Client A''],
           entry_zip_codes = [''90210''], driver_required = Some True\<rparr>]"
  by code_simp

text \<open>
  What the loop over the records does get right: a record whose conversion raises
  \<^verbatim>\<open>ValueError\<close> is skipped and noted, and when every record is skipped, or there is
  none, the schedule is empty.
\<close>

lemma read_clients_skips_value_error:
  "make_client i d = Inl ValueError \<Longrightarrow>
     read_clients i (d # rest) (cs, skipped) = read_clients (i + 1) rest (cs, skipped @ [i])"
  by simp

lemma read_clients_all_value_errors:
  "list_all (\<lambda>(i, d). make_client i d = Inl ValueError) (enumerate i ds) \<Longrightarrow>
     read_clients i ds (cs, skipped) = Inr (cs, skipped @ [i..<i + length ds])"
proof (induction ds arbitrary: i skipped)
  case Nil
  show ?case by simp
next
  case (Cons d ds)
  from Cons.prems have d: "make_client i d = Inl ValueError"
    and rest: "list_all (\<lambda>(i, d). make_client i d = Inl ValueError) (enumerate (Suc i) ds)"
    by simp_all
  from Cons.IH [OF rest, of "skipped @ [i]"] d show ?case
    by (simp add: upt_rec)
qed

lemma generate_optimal_schedule_all_value_errors:
  "list_all (\<lambda>(i, d). make_client i d = Inl ValueError) (enumerate 0 ds) \<Longrightarrow>
     generate_optimal_schedule ds = Inr []"
  by (simp add: generate_optimal_schedule_def read_clients_all_value_errors)

section \<open>The orchestrator and the hours of the result\<close>

text \<open>
  The splitter numbers its positions from the start offset, so the next free number is
  the offset plus their count.
\<close>

lemma next_pos_id:
  "(case fst (handle_mandatory_splits cs 1) of
      [] \<Rightarrow> 1
    | p # ps \<Rightarrow> fold max (map position_id ps) (position_id p) + 1)
   = 1 + int (length (fst (handle_mandatory_splits cs 1)))"
proof (cases "fst (handle_mandatory_splits cs 1)")
  case Nil
  then show ?thesis by simp
next
  case (Cons p ps)
  let ?n = "length (fst (handle_mandatory_splits cs 1))"
  have ids: "position_id p # map position_id ps = map (\<lambda>k. 1 + int k) [0..<?n]"
    using splits_ids [of cs 1] Cons by simp
  have "fold max (map position_id ps) (position_id p)
          = Max (set (position_id p # map position_id ps))"
    by (simp only: Max.set_eq_fold)
  also have "\<dots> = Max ((\<lambda>k. 1 + int k) ` {..<?n})"
    unfolding ids by (simp add: atLeast0LessThan)
  also have "\<dots> = int ?n"
  proof (rule Max_eqI)
    show "finite ((\<lambda>k. 1 + int k) ` {..<?n})"
      by simp
    show "y \<le> int ?n" if "y \<in> (\<lambda>k. 1 + int k) ` {..<?n}" for y
      using that by auto
    have "?n - 1 \<in> {..<?n}" "1 + int (?n - 1) = int ?n"
      using Cons by simp_all
    then show "int ?n \<in> (\<lambda>k. 1 + int k) ` {..<?n}"
      by (metis imageI)
  qed
  finally show ?thesis
    using Cons by simp
qed

lemma optimize_unfold:
  assumes "optimize_with_strategic_enhancements cs = (res, warn)" "res \<noteq> [] \<or> warn"
  shows "\<exists>labelled.
           map clients labelled = map clients (fst (handle_mandatory_splits cs 1))
         \<and> map total_hours labelled = map total_hours (fst (handle_mandatory_splits cs 1))
         \<and> validate_and_return_solution
              (labelled
               @ (if snd (handle_mandatory_splits cs 1) \<noteq> []
                  then constraint_satisfaction_algorithm (snd (handle_mandatory_splits cs 1))
                         (1 + int (length (fst (handle_mandatory_splits cs 1))))
                  else [])) 1
             = Some res
         \<and> (labelled \<noteq> [] \<or> (snd (handle_mandatory_splits cs 1) \<noteq> []
              \<and> constraint_satisfaction_algorithm (snd (handle_mandatory_splits cs 1))
                         (1 + int (length (fst (handle_mandatory_splits cs 1)))) \<noteq> []))
         \<and> warn = (sum_list (map total_hours res) \<noteq> sum_list (map hours cs))"
proof -
  obtain splits0 rem where h: "handle_mandatory_splits cs 1 = (splits0, rem)"
    by (cases "handle_mandatory_splits cs 1")
  let ?labelled = "map (\<lambda>pos. pos\<lparr>position_type :=
                                      Some (if total_hours pos \<le> 24 then ''Part-time''
                                            else ''Full-time''),
                                    driver_type :=
                                      Some (if requires_driver pos = Some True then ''Driver''
                                            else ''Non-driver'')\<rparr>) splits0"
  have next_id: "(case splits0 of [] \<Rightarrow> 1
                   | p # ps \<Rightarrow> fold max (map position_id ps) (position_id p) + 1)
                 = 1 + int (length splits0)"
    using next_pos_id [of cs] unfolding h by simp
  have "map clients ?labelled = map clients splits0"
    "map total_hours ?labelled = map total_hours splits0"
    by (simp_all add: comp_def)
  moreover from assms
  have "validate_and_return_solution
          (?labelled @ (if rem \<noteq> []
                        then constraint_satisfaction_algorithm rem (1 + int (length splits0))
                        else [])) 1 = Some res
        \<and> (?labelled \<noteq> [] \<or> (rem \<noteq> []
             \<and> constraint_satisfaction_algorithm rem (1 + int (length splits0)) \<noteq> []))
        \<and> warn = (sum_list (map total_hours res) \<noteq> sum_list (map hours cs))"
    unfolding optimize_with_strategic_enhancements_def h Let_def prod.case next_id
      post_optimization_merge_def
    by (auto split: if_splits option.splits)
  ultimately show ?thesis
    unfolding h fst_conv snd_conv by blast
qed

lemma split_positions_populated:
  "\<forall>p\<in>set (fst (handle_mandatory_splits cs k)). clients p \<noteq> []"
  using splits_sealed by fastforce

text \<open>
  C3, as the code has it. Let the clients have no negative hours. Whenever the pipeline
  returns a non-empty result and the search has placed the clients the splitter left over
  (or it left none), the hours of the returned positions add up to the hours of all input
  clients, which are those of the clients with hours > 0, and no warning is printed.
  Otherwise hours can be missing from the result. The pipeline prints the warning
  exactly when it returns a non-empty result whose hours do not add up to the hours of
  all input clients, and that result is returned all the same, as \<open>res\<close>; with an empty
  result it prints no such warning.
\<close>

theorem hours_conservation:
  assumes "optimize_with_strategic_enhancements cs = (res, warn)"
  shows "(list_all (\<lambda>c. 0 \<le> hours c) cs \<and> res \<noteq> []
          \<and> (snd (handle_mandatory_splits cs 1) = []
              \<or> constraint_satisfaction_algorithm (snd (handle_mandatory_splits cs 1))
                   (1 + int (length (fst (handle_mandatory_splits cs 1)))) \<noteq> [])
          \<longrightarrow> sum_list (map total_hours res)
                = sum_list (map hours (filter (\<lambda>c. hours c > 0) cs))
              \<and> \<not> warn)
       \<and> (res \<noteq> [] \<longrightarrow>
            (warn \<longleftrightarrow> sum_list (map total_hours res) \<noteq> sum_list (map hours cs)))
       \<and> (res = [] \<longrightarrow> \<not> warn)"
proof -
  let ?splits = "fst (handle_mandatory_splits cs 1)"
  let ?rem = "snd (handle_mandatory_splits cs 1)"
  let ?found = "constraint_satisfaction_algorithm ?rem (1 + int (length ?splits))"
  let ?additional = "if ?rem \<noteq> [] then ?found else []"
  have main: "sum_list (map total_hours res) = sum_list (map total_hours ?splits)
                 + sum_list (map total_hours ?additional)
              \<and> res \<noteq> []
              \<and> warn = (sum_list (map total_hours res) \<noteq> sum_list (map hours cs))"
    if "res \<noteq> [] \<or> warn"
  proof -
    from optimize_unfold [OF assms that] obtain labelled where
      cl: "map clients labelled = map clients ?splits"
      and th: "map total_hours labelled = map total_hours ?splits"
      and v: "validate_and_return_solution (labelled @ ?additional) 1 = Some res"
      and ne: "labelled \<noteq> [] \<or> (?rem \<noteq> [] \<and> ?found \<noteq> [])"
      and w: "warn = (sum_list (map total_hours res) \<noteq> sum_list (map hours cs))"
      by blast
    have "set (map clients labelled) \<subseteq> {x. x \<noteq> []}"
      unfolding cl using split_positions_populated [of cs 1] by auto
    then have "\<forall>p\<in>set labelled. clients p \<noteq> []"
      by auto
    moreover have "\<forall>p\<in>set ?additional. clients p \<noteq> []"
      using constraint_satisfaction_algorithm_populated [of ?rem "1 + int (length ?splits)"]
      by (cases "?rem = []") simp_all
    ultimately have pop: "filter (\<lambda>p. clients p \<noteq> []) (labelled @ ?additional)
                            = labelled @ ?additional"
      by (simp add: filter_id_conv)
    from validate_Some_contents(2) [OF v]
    have hours_res: "map total_hours res = map total_hours (labelled @ ?additional)"
      unfolding pop .
    then have "sum_list (map total_hours res)
                 = sum_list (map total_hours labelled) + sum_list (map total_hours ?additional)"
      by simp
    moreover from hours_res ne have "res \<noteq> []"
      by (metis append_is_Nil_conv map_is_Nil_conv)
    ultimately show ?thesis
      using w th by simp
  qed
  have conserved: "sum_list (map total_hours res)
                     = sum_list (map hours (filter (\<lambda>c. hours c > 0) cs)) \<and> \<not> warn"
    if nonneg: "list_all (\<lambda>c. 0 \<le> hours c) cs" and res: "res \<noteq> []"
      and search: "?rem = [] \<or> ?found \<noteq> []"
  proof -
    have rem: "?rem = filter (\<lambda>c. hours c \<le> 45) cs"
      by (rule splits_remaining)
    have "sum_list (map total_hours ?additional) = sum_list (map hours ?rem)"
    proof (cases "?rem = []")
      case True
      then show ?thesis by simp
    next
      case False
      with search have found: "?found \<noteq> []"
        by simp
      from nonneg have nonneg_rem: "list_all (\<lambda>c. 0 \<le> hours c) ?rem"
        unfolding rem by (simp add: list_all_iff)
      have "sum_list (map hours ?rem) \<noteq> 0"
      proof
        assume "sum_list (map hours ?rem) = 0"
        with nonneg_rem have "list_all (\<lambda>c. hours c = 0) ?rem"
          by (rule nonneg_sum_zero)
        then have "?found = []"
          by (rule constraint_satisfaction_algorithm_all_zero)
        with found show False
          by simp
      qed
      with constraint_satisfaction_algorithm_result [OF found]
      obtain t where "attempt_assignment ?rem t (1 + int (length ?splits)) = Some ?found"
        by auto
      from attempt_assignment_Some(2) [OF this] False show ?thesis
        by simp
    qed
    with main res have "sum_list (map total_hours res)
                          = sum_list (map total_hours ?splits) + sum_list (map hours ?rem)"
      and w: "warn = (sum_list (map total_hours res) \<noteq> sum_list (map hours cs))"
      by simp_all
    then have "sum_list (map total_hours res) = sum_list (map hours cs)"
      unfolding rem splits_total_hours using sum_hours_partition [of cs] by simp
    with w nonneg_sum_positive [OF nonneg] show ?thesis
      by simp
  qed
  have warned: "warn \<longleftrightarrow> sum_list (map total_hours res) \<noteq> sum_list (map hours cs)"
    if "res \<noteq> []"
    using main that by simp
  have silent: "\<not> warn" if "res = []"
    using main that by blast
  from conserved warned silent show ?thesis
    by blast
qed

theorem hours_conservation_witness:
  "(let kept = optimize_with_strategic_enhancements
                 [example_client 0 ''Client O'' 48 5 True ''90210'',
                  example_client 1 ''Client P'' 20 2 False ''90211''];
        lost = optimize_with_strategic_enhancements
                 [example_client 0 ''Client C'' 60 5 False ''90211'',
                  example_client 1 ''Client N'' 10 1 False ''90210''];
        none = optimize_with_strategic_enhancements
                 [example_client 0 ''Client N'' 10 1 False ''90210'']
    in sum_list (map total_hours (fst kept)) = 68 \<and> \<not> snd kept
       \<and> fst lost \<noteq> [] \<and> sum_list (map total_hours (fst lost)) \<noteq> 70 \<and> snd lost
       \<and> fst none = [] \<and> \<not> snd none)"
proof -
  let ?kept = "[example_client 0 ''Client O'' 48 5 True ''90210'',
                example_client 1 ''Client P'' 20 2 False ''90211'']"
  let ?lost = "[example_client 0 ''Client C'' 60 5 False ''90211'',
                example_client 1 ''Client N'' 10 1 False ''90210'']"
  let ?none = "[example_client 0 ''Client N'' 10 1 False ''90210'']"
  have nonneg: "list_all (\<lambda>c. 0 \<le> hours c) ?kept"
    by (simp add: example_client_def)
  have returned: "fst (optimize_with_strategic_enhancements ?kept) \<noteq> []"
    by code_simp
  have placed: "constraint_satisfaction_algorithm (snd (handle_mandatory_splits ?kept 1))
                  (1 + int (length (fst (handle_mandatory_splits ?kept 1)))) \<noteq> []"
    by code_simp
  have sum_kept: "sum_list (map hours (filter (\<lambda>c. hours c > 0) ?kept)) = 68"
    by (simp add: example_client_def)
  have returned_lost: "fst (optimize_with_strategic_enhancements ?lost) \<noteq> []"
    by code_simp
  have mismatch: "sum_list (map total_hours (fst (optimize_with_strategic_enhancements ?lost)))
                    \<noteq> sum_list (map hours ?lost)"
    by code_simp
  have mismatch_70:
    "sum_list (map total_hours (fst (optimize_with_strategic_enhancements ?lost))) \<noteq> 70"
    by code_simp
  have empty_result: "fst (optimize_with_strategic_enhancements ?none) = []"
    by code_simp
  have "sum_list (map total_hours (fst (optimize_with_strategic_enhancements ?kept)))
          = sum_list (map hours (filter (\<lambda>c. hours c > 0) ?kept))
        \<and> \<not> snd (optimize_with_strategic_enhancements ?kept)"
    using hours_conservation [OF prod.collapse [symmetric], of ?kept] nonneg returned placed
    by blast
  then have kept: "sum_list (map total_hours (fst (optimize_with_strategic_enhancements ?kept)))
                     = 68"
    "\<not> snd (optimize_with_strategic_enhancements ?kept)"
    unfolding sum_kept by blast+
  have lost: "snd (optimize_with_strategic_enhancements ?lost)"
    using hours_conservation [OF prod.collapse [symmetric], of ?lost] returned_lost mismatch
    by blast
  have none: "\<not> snd (optimize_with_strategic_enhancements ?none)"
    using hours_conservation [OF prod.collapse [symmetric], of ?none] empty_result
    by blast
  from kept lost none returned_lost mismatch_70 empty_result show ?thesis
    unfolding Let_def by blast
qed

theorem hours_conservation_counterexample:
  "(let cs = [example_client 0 ''Client C'' 60 5 False ''90211'',
              example_client 1 ''Client N'' 10 1 False ''90210''];
        returned = fst (optimize_with_strategic_enhancements cs)
    in map total_hours returned = [30, 30]
       \<and> sum_list (map hours (filter (\<lambda>c. hours c > 0) cs)) = 70
       \<and> sum_list (map total_hours returned)
           \<noteq> sum_list (map hours (filter (\<lambda>c. hours c > 0) cs)))"
  by code_simp

end
